theory Spec2Isabelle
  imports Complex_Main "HOL-Library.Sublist"
begin

section \<open>Text, time and the library interface\<close>

text \<open>
  A Python \<open>str\<close> is a sequence of Unicode code points; it is modelled as a list of
  natural numbers, one per code point, so that \<open>len\<close>, slicing and substring search count
  what Python counts. \<open>lit\<close> turns an ASCII literal of the source into such a list.

  A \<open>datetime\<close> is an integer number of microseconds on the UTC time line, a
  \<open>timedelta\<close> an integer number of microseconds (the resolution of both types); the
  range limits of the two Python types are outside the model. Each \<open>utcnow()\<close> of the
  source is an explicit clock reading passed to the function that makes it.
\<close>

type_synonym str = "nat list"
type_synonym instant = int
type_synonym timedelta = int

definition lit :: "string \<Rightarrow> str" where
  "lit s = map of_char s"

definition seconds :: "int \<Rightarrow> timedelta" where
  "seconds n = n * 1000000"

definition minutes :: "int \<Rightarrow> timedelta" where
  "minutes n = n * 60000000"

definition hours :: "int \<Rightarrow> timedelta" where
  "hours n = n * 3600000000"

text \<open>
  The functions of the Python standard library that the analysed code calls are
  parameters of the model: Unicode decomposition and character categories, lower-casing,
  the white space class, the search of the compiled URL pattern and the ratio of
  \<open>difflib.SequenceMatcher\<close>. The ratio is a float between 0 and 1 in Python and a
  rational here; the thresholds 0.9 and 0.85 are the rationals of the same name.
\<close>

record pylib =
  nfkd :: "str \<Rightarrow> str"
  category_C :: "nat \<Rightarrow> bool"
  str_lower :: "str \<Rightarrow> str"
  isspace :: "nat \<Rightarrow> bool"
  URL_PATTERN_search :: "str \<Rightarrow> bool"
  SequenceMatcher_ratio :: "str \<Rightarrow> str \<Rightarrow> rat"

text \<open>\<open>needle in hay\<close> on strings.\<close>

fun str_in :: "str \<Rightarrow> str \<Rightarrow> bool" where
  "str_in needle [] = (needle = [])"
| "str_in needle (c # cs) = (prefix needle (c # cs) \<or> str_in needle cs)"

text \<open>
  \<open>hay.count(needle)\<close>: the occurrences of \<open>needle\<close> found from left to right without
  overlap. \<open>skip\<close> is the number of characters of the last occurrence still to pass.
\<close>

fun count_from :: "nat \<Rightarrow> str \<Rightarrow> str \<Rightarrow> nat" where
  "count_from skip needle [] = 0"
| "count_from skip needle (c # cs) =
     (if 0 < skip then count_from (skip - 1) needle cs
      else if prefix needle (c # cs) then 1 + count_from (length needle - 1) needle cs
      else count_from 0 needle cs)"

definition str_count :: "str \<Rightarrow> str \<Rightarrow> nat" where
  "str_count hay needle = (if needle = [] then length hay + 1 else count_from 0 needle hay)"

section \<open>bot/utils/message\_analysis.py\<close>

definition strip :: "pylib \<Rightarrow> str \<Rightarrow> str" where
  "strip lib text = rev (dropWhile (isspace lib) (rev (dropWhile (isspace lib) text)))"

text \<open>\<open>re.sub(r"\s+", " ", text)\<close>: every maximal run of white space becomes one space.\<close>

function collapse_ws :: "pylib \<Rightarrow> str \<Rightarrow> str" where
  "collapse_ws lib [] = []"
| "collapse_ws lib (c # cs) =
     (if isspace lib c then 32 # collapse_ws lib (dropWhile (isspace lib) cs)
      else c # collapse_ws lib cs)"
  by pat_completeness auto
termination
  by (relation "measure (\<lambda>(lib, cs). length cs)")
     (auto simp: length_dropWhile_le less_Suc_eq_le)

definition normalize_content :: "pylib \<Rightarrow> str \<Rightarrow> str" where
  "normalize_content lib content =
     (let text = nfkd lib content;
          text = filter (\<lambda>ch. \<not> category_C lib ch) text;
          text = strip lib (str_lower lib text);
          text = collapse_ws lib text
      in text)"

definition contains_link :: "pylib \<Rightarrow> str \<Rightarrow> bool" where
  "contains_link lib content = URL_PATTERN_search lib content"

definition is_similar :: "pylib \<Rightarrow> str \<Rightarrow> str \<Rightarrow> rat \<Rightarrow> bool" where
  "is_similar lib a b threshold = (SequenceMatcher_ratio lib a b \<ge> threshold)"

section \<open>Messages and settings\<close>

text \<open>
  The author of a message is a guild member (with the instant the account was created
  and, when known, the instant it joined the guild) or a plain user.
\<close>

datatype author = Member int instant "instant option" | User int

record message =
  guild :: "int option"
  author :: author
  content :: str
  mention_everyone :: bool
  mentions :: "int list"
  role_mentions :: "int list"

record GuildSettings =
  guild_id :: int
  enabled :: bool
  spam_limit :: int
  time_window :: int
  link_block :: bool
  mention_limit :: int
  new_user_minutes :: int
  exception_keywords :: "str list"
  currency_report_enabled :: bool
  currency_report_channel_id :: "int option"

definition count_mentions :: "message \<Rightarrow> int" where
  "count_mentions message =
     (let count = int (length (mentions message)) + int (length (role_mentions message));
          count = (if mention_everyone message then count + 1 else count);
          count = count + int (str_count (content message) (lit ''@everyone''))
                        + int (str_count (content message) (lit ''@here''))
      in count)"

section \<open>bot/services/violation\_tracker.py\<close>

datatype py_error = ZeroDivisionError

record ViolationRecord =
  count :: int
  last_triggered :: instant
  last_decay_check :: instant

record ViolationTracker =
  records :: "(int \<times> int) \<rightharpoonup> ViolationRecord"
  decay_after :: timedelta

definition ViolationTracker_init :: "int \<Rightarrow> ViolationTracker" where
  "ViolationTracker_init decay_hours = \<lparr>records = Map.empty, decay_after = hours decay_hours\<rparr>"

text \<open>
  The decay step of \<open>increment\<close>, on the record found: the floor division of two
  durations raises \<open>ZeroDivisionError\<close> when the decay period is zero, before the record
  is touched.
\<close>

definition decay :: "instant \<Rightarrow> timedelta \<Rightarrow> ViolationRecord \<Rightarrow> py_error + ViolationRecord" where
  "decay now period record =
     (let elapsed = now - last_decay_check record in
      if elapsed \<ge> period then
        if period = 0 then Inl ZeroDivisionError
        else
          let decay_steps = elapsed div period in
          Inr (record\<lparr>count := max 0 (count record - decay_steps), last_decay_check := now\<rparr>)
      else Inr record)"

definition increment ::
  "instant \<Rightarrow> int \<Rightarrow> int \<Rightarrow> ViolationTracker \<Rightarrow> py_error + (int \<times> ViolationTracker)" where
  "increment now gid uid self =
     (let key = (gid, uid) in
      case (case records self key of
              None \<Rightarrow> Inr None
            | Some record \<Rightarrow> map_sum id Some (decay now (decay_after self) record)) of
        Inl e \<Rightarrow> Inl e
      | Inr found \<Rightarrow>
          let record =
                (case found of
                   None \<Rightarrow> \<lparr>count = 0, last_triggered = now, last_decay_check = now\<rparr>
                 | Some r \<Rightarrow>
                     if count r \<le> 0
                     then \<lparr>count = 0, last_triggered = now, last_decay_check = now\<rparr>
                     else r);
              record = record\<lparr>count := count record + 1\<rparr>;
              record = record\<lparr>last_triggered := now\<rparr>
          in Inr (count record, self\<lparr>records := (records self)(key \<mapsto> record)\<rparr>))"

definition reset :: "int \<Rightarrow> int \<Rightarrow> ViolationTracker \<Rightarrow> ViolationTracker" where
  "reset gid uid self = self\<lparr>records := (records self)((gid, uid) := None)\<rparr>"

section \<open>bot/services/spam\_detector.py\<close>

datatype SpamActionType = NONE | WARN | DELETE | TIMEOUT | KICK

record SpamAction =
  action :: SpamActionType
  reason :: str
  details :: "str option"
  violation_count :: int

record MessageRecord =
  timestamp :: instant
  raw_content :: str
  normalized :: str

text \<open>A \<open>deque\<close> with its \<open>maxlen\<close>; the head of the list is the left end.\<close>

record deque =
  maxlen :: int
  items :: "MessageRecord list"

definition deque_append :: "MessageRecord \<Rightarrow> deque \<Rightarrow> deque" where
  "deque_append x d =
     (if int (length (items d)) \<ge> maxlen d
      then d\<lparr>items := tl (items d @ [x])\<rparr>
      else d\<lparr>items := items d @ [x]\<rparr>)"

record SpamDetector =
  violation_tracker :: ViolationTracker
  history :: "(int \<times> int) \<rightharpoonup> deque"

definition SpamDetector_init :: "ViolationTracker \<Rightarrow> SpamDetector" where
  "SpamDetector_init tracker = \<lparr>violation_tracker = tracker, history = Map.empty\<rparr>"

text \<open>The reason texts of the source, as code points.\<close>

definition reason_mass_mention :: str where
  "reason_mass_mention =
     [45824, 47049, 32, 47704, 49496, 40, 64, 101, 118, 101, 114, 121, 111, 110, 101, 47,
      64, 104, 101, 114, 101, 41, 32, 49324, 50857]"

definition reason_flood :: str where
  "reason_flood = [47700, 49884, 51648, 32, 46020, 48176, 32, 44048, 51648]"

definition reason_mention_spam :: str where
  "reason_mention_spam = [47704, 49496, 32, 49828, 54072, 32, 44048, 51648]"

definition reason_duplicate :: str where
  "reason_duplicate =
     [46041, 51068, 47, 50976, 49324, 32, 47700, 49884, 51648, 32, 48152, 48373]"

definition reason_ai_similarity :: str where
  "reason_ai_similarity =
     [65, 73, 32, 50976, 49324, 46020, 32, 49828, 54072, 32, 44048, 51648]"

definition reason_new_account :: str where
  "reason_new_account =
     [49888, 44508, 32, 44228, 51221, 32, 48372, 54840, 32, 51221, 52293, 32, 50948, 48152]"

text \<open>\<open>xs[-n:]\<close> for a positive \<open>n\<close>, and \<open>xs[:-1]\<close>.\<close>

definition last_n :: "nat \<Rightarrow> 'a list \<Rightarrow> 'a list" where
  "last_n n xs = drop (length xs - n) xs"

definition has_duplicate_content :: "pylib \<Rightarrow> deque \<Rightarrow> bool" where
  "has_duplicate_content lib hist =
     (if length (items hist) < 3 then False
      else
        let recent = last_n 3 (items hist);
            base = normalized (last recent);
            duplicates =
              sum_list (map (\<lambda>record. if is_similar lib base (normalized record) (9 / 10)
                                       then (1::nat) else 0) (butlast recent))
        in duplicates \<ge> 2)"

definition has_ai_like_similarity :: "pylib \<Rightarrow> deque \<Rightarrow> bool" where
  "has_ai_like_similarity lib hist =
     (if length (items hist) < 4 then False
      else
        let recent = last_n 4 (items hist);
            target = normalized (last recent);
            similarity_hits =
              fold (\<lambda>record hits. if is_similar lib target (normalized record) (85 / 100)
                                   then hits + 1 else hits) (butlast recent) (0::nat)
        in similarity_hits \<ge> 2)"

fun any_keyword_in :: "pylib \<Rightarrow> str \<Rightarrow> str list \<Rightarrow> bool" where
  "any_keyword_in lib base [] = False"
| "any_keyword_in lib base (keyword # keywords) =
     (if str_in (str_lower lib keyword) base then True else any_keyword_in lib base keywords)"

definition is_ai_exempt :: "pylib \<Rightarrow> str \<Rightarrow> str list \<Rightarrow> bool" where
  "is_ai_exempt lib text keywords =
     (let base = str_lower lib text in any_keyword_in lib base keywords)"

definition action_for_count :: "int \<Rightarrow> SpamActionType" where
  "action_for_count cnt =
     (if cnt \<le> 1 then WARN
      else if cnt = 2 then DELETE
      else if cnt = 3 then TIMEOUT
      else KICK)"

definition detect_violation ::
  "pylib \<Rightarrow> instant \<Rightarrow> message \<Rightarrow> deque \<Rightarrow> GuildSettings \<Rightarrow> str option \<times> SpamActionType option" where
  "detect_violation lib utcnow message hist config =
     (if \<not> enabled config then (None, None)
      else if mention_everyone message \<or> str_in (lit ''@everyone'') (content message)
              \<or> str_in (lit ''@here'') (content message)
      then (Some reason_mass_mention, Some TIMEOUT)
      else if int (length (items hist)) > spam_limit config then (Some reason_flood, None)
      else
        let has_link = contains_link lib (content message);
            mentions = count_mentions message
        in
        if mention_limit config \<noteq> 0 \<and> mentions \<ge> mention_limit config
        then (Some reason_mention_spam, None)
        else if has_duplicate_content lib hist then (Some reason_duplicate, None)
        else if \<not> is_ai_exempt lib (content message) (exception_keywords config)
                \<and> has_ai_like_similarity lib hist
        then (Some reason_ai_similarity, None)
        else
          (case author message of
             Member member_id created_at joined_at \<Rightarrow>
               let now = utcnow;
                   account_age = now - created_at;
                   join_age = (case joined_at of Some j \<Rightarrow> now - j | None \<Rightarrow> account_age);
                   min_age = minutes (new_user_minutes config);
                   is_new = (account_age < min_age \<or> join_age < min_age)
               in
               if is_new \<and> (has_link \<or> mentions \<ge> 2
                             \<or> int (length (items hist)) \<ge> spam_limit config)
               then (Some reason_new_account, None)
               else (None, None)
           | User _ \<Rightarrow> (None, None)))"

text \<open>The loop of \<open>register_message\<close> that drops expired records from the left end.\<close>

fun prune :: "instant \<Rightarrow> timedelta \<Rightarrow> MessageRecord list \<Rightarrow> MessageRecord list" where
  "prune now window [] = []"
| "prune now window (r # rs) =
     (if now - timestamp r > window then prune now window rs else r # rs)"

text \<open>
  The three clock readings of one call of \<open>register_message\<close>: its own, the one of
  \<open>_detect_violation\<close> and the one of \<open>ViolationTracker.increment\<close>.
\<close>

record clock =
  at_register :: instant
  at_detect :: instant
  at_increment :: instant

text \<open>
  Lines 51 to 58 of \<open>register_message\<close>: the buffer of the key (created with the
  capacity of the current settings when the key has none), with the message appended and
  the expired records dropped.
\<close>

definition record_message ::
  "pylib \<Rightarrow> instant \<Rightarrow> int \<times> int \<Rightarrow> message \<Rightarrow> GuildSettings \<Rightarrow> SpamDetector \<Rightarrow> deque" where
  "record_message lib now key message config self =
     (let normalized = normalize_content lib (content message);
          history0 =
            (case history self key of
               None \<Rightarrow> \<lparr>maxlen = max (spam_limit config * 2) 20, items = []\<rparr>
             | Some d \<Rightarrow> d);
          history1 =
            deque_append
              \<lparr>timestamp = now, raw_content = content message, normalized = normalized\<rparr>
              history0;
          window = seconds (time_window config)
      in history1\<lparr>items := prune now window (items history1)\<rparr>)"

text \<open>
  \<open>register_message\<close> returns what the call returns or raises, with the detector as the
  call leaves it: an exception of \<open>increment\<close> leaves the history already updated.
\<close>

definition register_message ::
  "pylib \<Rightarrow> clock \<Rightarrow> message \<Rightarrow> GuildSettings \<Rightarrow> SpamDetector
     \<Rightarrow> (py_error + SpamAction option) \<times> SpamDetector" where
  "register_message lib clk message config self =
     (case (guild message, author message) of
        (Some gid, Member uid created_at joined_at) \<Rightarrow>
          let key = (gid, uid);
              now = at_register clk;
              hist = record_message lib now key message config self;
              self1 = self\<lparr>history := (history self)(key \<mapsto> hist)\<rparr>
          in
          (case detect_violation lib (at_detect clk) message hist config of
             (None, forced_action) \<Rightarrow> (Inr None, self1)
           | (Some violation_reason, forced_action) \<Rightarrow>
               (case increment (at_increment clk) gid uid (violation_tracker self1) of
                  Inl e \<Rightarrow> (Inl e, self1)
                | Inr (cnt, tracker) \<Rightarrow>
                    (Inr (Some \<lparr>action =
                                  (case forced_action of
                                     Some a \<Rightarrow> a
                                   | None \<Rightarrow> action_for_count cnt),
                                reason = violation_reason,
                                details = Some (take 200 (content message)),
                                violation_count = cnt\<rparr>),
                     self1\<lparr>violation_tracker := tracker\<rparr>)))
      | _ \<Rightarrow> (Inr None, self))"

definition reset_user :: "int \<Rightarrow> int \<Rightarrow> SpamDetector \<Rightarrow> SpamDetector" where
  "reset_user gid uid self =
     self\<lparr>violation_tracker := reset gid uid (violation_tracker self)\<rparr>"

section \<open>Sequences of calls\<close>

text \<open>
  The detector is driven by calls of \<open>register_message\<close> and \<open>reset_user\<close>; an
  exception of a call reaches the event loop, and the next call finds the detector as the
  failed one left it.
\<close>

datatype call = RegisterMessage clock message GuildSettings | ResetUser int int

fun step :: "pylib \<Rightarrow> call \<Rightarrow> SpamDetector \<Rightarrow> SpamDetector" where
  "step lib (RegisterMessage clk message config) self =
     snd (register_message lib clk message config self)"
| "step lib (ResetUser gid uid) self = reset_user gid uid self"

fun run :: "pylib \<Rightarrow> call list \<Rightarrow> SpamDetector \<Rightarrow> SpamDetector" where
  "run lib [] self = self"
| "run lib (c # cs) self = run lib cs (step lib c self)"

text \<open>The key a message is filed under, when \<open>register_message\<close> accepts it.\<close>

definition message_key :: "message \<Rightarrow> (int \<times> int) option" where
  "message_key message =
     (case (guild message, author message) of
        (Some gid, Member uid created_at joined_at) \<Rightarrow> Some (gid, uid)
      | _ \<Rightarrow> None)"

section \<open>An instance of the library interface\<close>

text \<open>
  A small instance of the library interface on ASCII text, on which the model is run on
  concrete inputs: no decomposition, the ASCII control characters, letters and white
  space, a link as the text \<open>http://\<close>, and the coarsest similarity (1 for equal texts,
  0 otherwise).
\<close>

definition ascii_lower :: "str \<Rightarrow> str" where
  "ascii_lower s = map (\<lambda>c. if 65 \<le> c \<and> c \<le> 90 then c + 32 else c) s"

definition ascii_lib :: pylib where
  "ascii_lib =
     \<lparr>nfkd = (\<lambda>s. s),
      category_C = (\<lambda>c. c < 32 \<or> c = 127),
      str_lower = ascii_lower,
      isspace = (\<lambda>c. c = 32 \<or> (9 \<le> c \<and> c \<le> 13)),
      URL_PATTERN_search = (\<lambda>s. str_in (lit ''http://'') s),
      SequenceMatcher_ratio = (\<lambda>a b. if a = b then 1 else 0)\<rparr>"

section \<open>The specification's statements\<close>

text \<open>
  \<open>increment\<close> as the specification words it: look the record up; when it is present
  and the time since the last decay check has reached the decay period, take the floor of
  their quotient off the count, not below zero, and set the decay check to now; with no
  record, or a count that is not positive, start from a fresh record of count 0; add one,
  set the trigger time, store and return the count.
\<close>

definition increment_spec ::
  "instant \<Rightarrow> int \<Rightarrow> int \<Rightarrow> ViolationTracker \<Rightarrow> int \<times> ViolationTracker" where
  "increment_spec now gid uid self =
     (let fresh = \<lparr>count = 0, last_triggered = now, last_decay_check = now\<rparr>;
          decayed =
            map_option
              (\<lambda>r. if now - last_decay_check r \<ge> decay_after self
                    then r\<lparr>count :=
                             max 0 (count r
                                    - \<lfloor>real_of_int (now - last_decay_check r)
                                        / real_of_int (decay_after self)\<rfloor>),
                           last_decay_check := now\<rparr>
                    else r)
              (records self (gid, uid));
          start = (case decayed of
                     None \<Rightarrow> fresh
                   | Some r \<Rightarrow> if count r \<le> 0 then fresh else r);
          stored = start\<lparr>count := count start + 1, last_triggered := now\<rparr>
      in (count stored, self\<lparr>records := (records self)((gid, uid) \<mapsto> stored)\<rparr>))"

text \<open>
  The conditions of the detection rules, and the rules as the ordered list of condition,
  reason and forced action of which the first match decides.
\<close>

definition mass_mention_rule :: "message \<Rightarrow> bool" where
  "mass_mention_rule message =
     (mention_everyone message \<or> str_in (lit ''@everyone'') (content message)
      \<or> str_in (lit ''@here'') (content message))"

definition flood_rule :: "deque \<Rightarrow> GuildSettings \<Rightarrow> bool" where
  "flood_rule hist config = (int (length (items hist)) > spam_limit config)"

definition mention_spam_rule :: "message \<Rightarrow> GuildSettings \<Rightarrow> bool" where
  "mention_spam_rule message config =
     (mention_limit config \<noteq> 0 \<and> count_mentions message \<ge> mention_limit config)"

definition ai_similarity_rule :: "pylib \<Rightarrow> message \<Rightarrow> deque \<Rightarrow> GuildSettings \<Rightarrow> bool" where
  "ai_similarity_rule lib message hist config =
     (\<not> is_ai_exempt lib (content message) (exception_keywords config)
      \<and> has_ai_like_similarity lib hist)"

definition new_member_rule ::
  "pylib \<Rightarrow> instant \<Rightarrow> message \<Rightarrow> deque \<Rightarrow> GuildSettings \<Rightarrow> bool" where
  "new_member_rule lib now message hist config =
     (case author message of
        Member uid created_at joined_at \<Rightarrow>
          (now - created_at < minutes (new_user_minutes config)
           \<or> now - (case joined_at of Some j \<Rightarrow> j | None \<Rightarrow> created_at)
               < minutes (new_user_minutes config))
          \<and> (contains_link lib (content message) \<or> count_mentions message \<ge> 2
               \<or> int (length (items hist)) \<ge> spam_limit config)
      | User uid \<Rightarrow> False)"

definition rules ::
  "pylib \<Rightarrow> instant \<Rightarrow> message \<Rightarrow> deque \<Rightarrow> GuildSettings
     \<Rightarrow> (bool \<times> str \<times> SpamActionType option) list" where
  "rules lib now message hist config =
     [(mass_mention_rule message, reason_mass_mention, Some TIMEOUT),
      (flood_rule hist config, reason_flood, None),
      (mention_spam_rule message config, reason_mention_spam, None),
      (has_duplicate_content lib hist, reason_duplicate, None),
      (ai_similarity_rule lib message hist config, reason_ai_similarity, None),
      (new_member_rule lib now message hist config, reason_new_account, None)]"

fun first_match :: "(bool \<times> 'a) list \<Rightarrow> 'a option" where
  "first_match [] = None"
| "first_match ((c, x) # rs) = (if c then Some x else first_match rs)"

text \<open>The invariant of the tracker: every stored record holds at least one strike.\<close>

definition counts_positive :: "ViolationTracker \<Rightarrow> bool" where
  "counts_positive t = (\<forall>k r. records t k = Some r \<longrightarrow> 1 \<le> count r)"

text \<open>
  The snapshot of a key's buffer, the record a call appends, and the records a sequence
  of calls appends for a key.
\<close>

definition buffer :: "SpamDetector \<Rightarrow> int \<times> int \<Rightarrow> MessageRecord list" where
  "buffer self key = (case history self key of None \<Rightarrow> [] | Some d \<Rightarrow> items d)"

definition message_record :: "pylib \<Rightarrow> instant \<Rightarrow> message \<Rightarrow> MessageRecord" where
  "message_record lib now message =
     \<lparr>timestamp = now, raw_content = content message,
      normalized = normalize_content lib (content message)\<rparr>"

fun appended :: "pylib \<Rightarrow> int \<times> int \<Rightarrow> call list \<Rightarrow> MessageRecord list" where
  "appended lib key [] = []"
| "appended lib key (RegisterMessage clk message config # cs) =
     (if message_key message = Some key
      then message_record lib (at_register clk) message # appended lib key cs
      else appended lib key cs)"
| "appended lib key (ResetUser gid uid # cs) = appended lib key cs"

text \<open>
  The invariant behind the window: the buffer of the key is in non-decreasing order of
  time and holds no record later than \<open>t\<close>.
\<close>

definition ordered_until :: "instant \<Rightarrow> SpamDetector \<Rightarrow> int \<times> int \<Rightarrow> bool" where
  "ordered_until t self key =
     (sorted (map timestamp (buffer self key))
      \<and> (\<forall>r \<in> set (buffer self key). timestamp r \<le> t))"

text \<open>
  The spam limit of the settings of the first call that files a message under a key: the
  call that creates the key's buffer.
\<close>

fun first_spam_limit :: "int \<times> int \<Rightarrow> call list \<Rightarrow> int option" where
  "first_spam_limit key [] = None"
| "first_spam_limit key (RegisterMessage clk message config # cs) =
     (if message_key message = Some key then Some (spam_limit config)
      else first_spam_limit key cs)"
| "first_spam_limit key (ResetUser gid uid # cs) = first_spam_limit key cs"

definition within_capacity :: "SpamDetector \<Rightarrow> bool" where
  "within_capacity self =
     (\<forall>key d. history self key = Some d \<longrightarrow> int (length (items d)) \<le> maxlen d)"

text \<open>
  The near-duplicate rule as the specification words it: the content holds no exception
  keyword as a substring, both in lower case; the history has at least four records; and
  at least two of the three records before the newest one have a similarity of at least
  0.85 to the newest.
\<close>

definition near_duplicate_spec :: "pylib \<Rightarrow> message \<Rightarrow> deque \<Rightarrow> GuildSettings \<Rightarrow> bool" where
  "near_duplicate_spec lib message hist config =
     (let rs = items hist; n = length rs in
      \<not> (\<exists>keyword \<in> set (exception_keywords config).
            sublist (str_lower lib keyword) (str_lower lib (content message)))
      \<and> 4 \<le> n
      \<and> 2 \<le> length (filter
                 (\<lambda>k. 85 / 100 \<le> SequenceMatcher_ratio lib (normalized (rs ! (n - 1)))
                                     (normalized (rs ! (n - k))))
                 [2, 3, 4]))"

section \<open>Concrete inputs\<close>

text \<open>
  The default settings and variants of them; a message of member 7 of guild 1, whose
  account is old, and one of a newcomer with no joined-at instant; a clock that reads the
  same second three times; the record a message leaves; and detector states: the new
  detector, a member with five recent messages, and the same with three strikes.
\<close>

definition settings0 :: GuildSettings where
  "settings0 =
     \<lparr>guild_id = 1, enabled = True, spam_limit = 5, time_window = 7, link_block = False,
      mention_limit = 5, new_user_minutes = 10, exception_keywords = [],
      currency_report_enabled = False, currency_report_channel_id = None\<rparr>"

definition member_message :: "string \<Rightarrow> message" where
  "member_message s =
     \<lparr>guild = Some 1, author = Member 7 0 (Some 0), content = lit s,
      mention_everyone = False, mentions = [], role_mentions = []\<rparr>"

definition clock_at :: "int \<Rightarrow> clock" where
  "clock_at n = \<lparr>at_register = seconds n, at_detect = seconds n, at_increment = seconds n\<rparr>"

definition sent :: "int \<Rightarrow> string \<Rightarrow> MessageRecord" where
  "sent n s = \<lparr>timestamp = seconds n, raw_content = lit s, normalized = lit s\<rparr>"

definition busy_detector :: SpamDetector where
  "busy_detector =
     \<lparr>violation_tracker = ViolationTracker_init 24,
      history =
        [(1, 7) \<mapsto>
           \<lparr>maxlen = 20,
            items = [sent 1000 ''a'', sent 1001 ''b'', sent 1002 ''c'', sent 1003 ''d'',
                     sent 1004 ''e'']\<rparr>]\<rparr>"

definition tracker1 :: ViolationTracker where
  "tracker1 = \<lparr>records = [(1, 7) \<mapsto> \<lparr>count = 3, last_triggered = 0, last_decay_check = 0\<rparr>],
               decay_after = hours 24\<rparr>"

definition settings_off :: GuildSettings where
  "settings_off = settings0\<lparr>enabled := False\<rparr>"

definition detector0 :: SpamDetector where
  "detector0 = SpamDetector_init (ViolationTracker_init 24)"


definition newcomer_message :: message where
  "newcomer_message =
     \<lparr>guild = Some 1, author = Member 8 (seconds 900) None, content = lit ''http://x'',
      mention_everyone = False, mentions = [], role_mentions = []\<rparr>"

definition late_call :: call where
  "late_call = RegisterMessage (clock_at 2000) newcomer_message settings0"

definition here_call :: call where
  "here_call = RegisterMessage (clock_at 1000) (member_message ''@here'') settings0"

text \<open>
  Twenty messages of one member, a tenth of a second apart, under settings with spam
  limit 50, followed by one more under the default settings with spam limit 5.
\<close>

definition settings_wide :: GuildSettings where
  "settings_wide = settings0\<lparr>spam_limit := 50\<rparr>"

definition tick :: "nat \<Rightarrow> clock" where
  "tick i =
     \<lparr>at_register = seconds 1000 + int i * 100000, at_detect = seconds 1000 + int i * 100000,
      at_increment = seconds 1000 + int i * 100000\<rparr>"

definition tick_record :: "nat \<Rightarrow> MessageRecord" where
  "tick_record i =
     \<lparr>timestamp = seconds 1000 + int i * 100000, raw_content = lit ''hi'',
      normalized = lit ''hi''\<rparr>"

definition wide_call :: "nat \<Rightarrow> call" where
  "wide_call i = RegisterMessage (tick i) (member_message ''hi'') settings_wide"

definition narrow_call :: call where
  "narrow_call = RegisterMessage (tick 20) (member_message ''hi'') settings0"

definition wide_calls :: "nat \<Rightarrow> call list" where
  "wide_calls n = map wide_call [0..<n]"

definition ticks :: "nat \<Rightarrow> MessageRecord list" where
  "ticks n = map tick_record [0..<n]"

definition overflow_calls :: "call list" where
  "overflow_calls = wide_calls 20 @ [narrow_call]"

text \<open>A history whose newest record repeats two of the three before it.\<close>

definition repeating_history :: deque where
  "repeating_history =
     \<lparr>maxlen = 20,
      items = [sent 1000 ''spam'', sent 1001 ''spam'', sent 1002 ''other'', sent 1003 ''spam'']\<rparr>"

definition settings_exempt :: GuildSettings where
  "settings_exempt = settings0\<lparr>exception_keywords := [lit ''SPA'']\<rparr>"

section \<open>The violation tracker\<close>

lemma decay_ok:
  "period \<noteq> 0 \<Longrightarrow>
   decay now period r =
     Inr (if now - last_decay_check r \<ge> period
          then r\<lparr>count := max 0 (count r - (now - last_decay_check r) div period),
                 last_decay_check := now\<rparr>
          else r)"
  by (simp add: decay_def Let_def)

lemma increment_no_record:
  "records self (gid, uid) = None \<Longrightarrow>
   increment now gid uid self =
     Inr (1, self\<lparr>records := (records self)((gid, uid) \<mapsto>
                 \<lparr>count = 1, last_triggered = now, last_decay_check = now\<rparr>)\<rparr>)"
  by (simp add: increment_def)

lemma increment_result:
  assumes "increment now gid uid self = Inr (c, t)"
  shows "1 \<le> c \<and> decay_after t = decay_after self
         \<and> map_option count (records t (gid, uid)) = Some c
         \<and> (\<forall>k. k \<noteq> (gid, uid) \<longrightarrow> records t k = records self k)"
proof (cases "records self (gid, uid)")
  case None
  with assms show ?thesis by (auto simp: increment_no_record)
next
  case (Some r)
  with assms show ?thesis
    by (cases "decay now (decay_after self) r")
       (auto simp: increment_def Let_def split: if_splits)
qed

lemma increment_total:
  "decay_after self \<noteq> 0 \<Longrightarrow> \<exists>c t. increment now gid uid self = Inr (c, t)"
  by (cases "records self (gid, uid)") (simp_all add: increment_def decay_ok Let_def)

text \<open>
  Claim C4. For every key and every call time, \<open>increment\<close> computes what the
  specification's algorithm computes, whenever the decay period is not zero: an existing
  record whose last decay check is at least one period old loses
  \<open>floor (elapsed / period)\<close> strikes, not below zero, and has its decay check set to
  now; a missing record or a count that is not positive starts afresh from zero; the
  count is then increased by one, the trigger time set to now, the record stored and the
  new count returned.
\<close>

theorem increment_follows_spec:
  assumes "decay_after self \<noteq> 0"
  shows "increment now gid uid self = Inr (increment_spec now gid uid self)"
proof (cases "records self (gid, uid)")
  case None
  then show ?thesis by (simp add: increment_def increment_spec_def)
next
  case (Some r)
  have fl: "\<lfloor>(real_of_int now - real_of_int (last_decay_check r))
              / real_of_int (decay_after self)\<rfloor>
            = (now - last_decay_check r) div decay_after self"
    using floor_divide_of_int_eq [of "now - last_decay_check r" "decay_after self", where ?'a = real]
    by simp
  show ?thesis
    using Some assms
    by (simp add: increment_def increment_spec_def decay_ok fl Let_def)
qed

theorem increment_follows_spec_witness:
  "decay_after tracker1 \<noteq> 0
   \<and> increment (hours 50) 1 7 tracker1 = Inr (increment_spec (hours 50) 1 7 tracker1)
   \<and> fst (increment_spec (hours 50) 1 7 tracker1) = 2"
proof -
  have h: "decay_after tracker1 \<noteq> 0" by (simp add: tracker1_def hours_def)
  have "fst (increment_spec (hours 50) 1 7 tracker1) = 2"
    by (simp add: increment_spec_def tracker1_def hours_def)
  with h increment_follows_spec [OF h, of "hours 50" 1 7] show ?thesis by simp
qed

section \<open>The order of the rules\<close>

lemma reasons_distinct:
  "distinct [reason_mass_mention, reason_flood, reason_mention_spam, reason_duplicate,
             reason_ai_similarity, reason_new_account]"
  by (simp add: reason_mass_mention_def reason_flood_def reason_mention_spam_def
        reason_duplicate_def reason_ai_similarity_def reason_new_account_def)

lemma detect_violation_first_match:
  "detect_violation lib now message hist config =
     (if \<not> enabled config then (None, None)
      else case first_match (rules lib now message hist config) of
             None \<Rightarrow> (None, None)
           | Some (r, forced) \<Rightarrow> (Some r, forced))"
  by (simp add: detect_violation_def rules_def mass_mention_rule_def flood_rule_def
        mention_spam_rule_def ai_similarity_rule_def new_member_rule_def Let_def
      split: author.splits option.splits)

lemma register_message_member:
  assumes "guild message = Some gid" "author message = Member uid c j"
  shows "register_message lib clk message config self =
     (let hist = record_message lib (at_register clk) (gid, uid) message config self;
          self1 = self\<lparr>history := (history self)((gid, uid) \<mapsto> hist)\<rparr>
      in case detect_violation lib (at_detect clk) message hist config of
           (None, forced) \<Rightarrow> (Inr None, self1)
         | (Some r, forced) \<Rightarrow>
             (case increment (at_increment clk) gid uid (violation_tracker self) of
                Inl e \<Rightarrow> (Inl e, self1)
              | Inr (cnt, tracker) \<Rightarrow>
                  (Inr (Some \<lparr>action = (case forced of Some a \<Rightarrow> a
                                          | None \<Rightarrow> action_for_count cnt),
                              reason = r, details = Some (take 200 (content message)),
                              violation_count = cnt\<rparr>),
                   self1\<lparr>violation_tracker := tracker\<rparr>)))"
  using assms
  by (simp add: register_message_def Let_def split: prod.splits option.splits sum.splits)

lemma register_message_not_member:
  "message_key message = None \<Longrightarrow>
   register_message lib clk message config self = (Inr None, self)"
  by (auto simp: register_message_def message_key_def split: option.splits author.splits)

lemma message_key_Some:
  "message_key message = Some (gid, uid) \<longleftrightarrow>
   guild message = Some gid \<and> (\<exists>c j. author message = Member uid c j)"
  by (auto simp: message_key_def split: option.splits author.splits)

lemma norm_everyone: "normalize_content ascii_lib (lit ''hi @everyone'') = lit ''hi @everyone''"
  by (simp add: normalize_content_def ascii_lib_def lit_def strip_def ascii_lower_def)

lemma record_everyone:
  "items (record_message ascii_lib (seconds 1005) (1, 7) (member_message ''hi @everyone'')
     settings0 busy_detector)
   = [sent 1000 ''a'', sent 1001 ''b'', sent 1002 ''c'', sent 1003 ''d'', sent 1004 ''e'',
      sent 1005 ''hi @everyone'']"
  by (simp add: record_message_def norm_everyone member_message_def settings0_def
      busy_detector_def deque_append_def sent_def seconds_def)

lemma mass_everyone: "mass_mention_rule (member_message ''hi @everyone'')"
  by (simp add: mass_mention_rule_def member_message_def lit_def)

lemma register_message_Some:
  assumes "fst (register_message lib clk message config self) = Inr (Some a)"
  shows "\<exists>gid uid c j r forced t.
           guild message = Some gid \<and> author message = Member uid c j
           \<and> detect_violation lib (at_detect clk) message
                (record_message lib (at_register clk) (gid, uid) message config self) config
               = (Some r, forced)
           \<and> increment (at_increment clk) gid uid (violation_tracker self)
               = Inr (violation_count a, t)
           \<and> violation_tracker (snd (register_message lib clk message config self)) = t
           \<and> reason a = r
           \<and> action a = (case forced of Some f \<Rightarrow> f | None \<Rightarrow> action_for_count (violation_count a))
           \<and> details a = Some (take 200 (content message))"
proof (cases "message_key message")
  case None
  with assms show ?thesis by (simp add: register_message_not_member)
next
  case (Some key)
  obtain gid uid where key: "key = (gid, uid)" by (cases key)
  from Some key obtain c j where m: "guild message = Some gid" "author message = Member uid c j"
    by (auto simp: message_key_Some)
  from assms show ?thesis
    by (auto simp: register_message_member [OF m] m Let_def
        split: prod.splits option.splits sum.splits)
qed

text \<open>
  Claim C2. With detection enabled and a tracker whose decay period is not zero, a
  message of a guild member that meets the mass mention condition and the flood condition
  (on the history after appending and pruning) gets exactly one violation: the mass
  mention reason with the forced action timeout, not the flood reason. For every message,
  history and settings, \<open>_detect_violation\<close> returns nothing when detection is disabled
  and otherwise the reason and the forced action of the first rule, in the fixed order,
  whose condition holds (nothing when none holds); and the one reason of every action
  \<open>register_message\<close> returns is the reason of that first rule on the history after
  appending and pruning.
\<close>

theorem mass_mention_beats_flood:
  "(enabled config \<and> guild message = Some gid \<and> author message = Member uid c j
      \<and> decay_after (violation_tracker self) \<noteq> 0
      \<and> mass_mention_rule message
      \<and> flood_rule (record_message lib (at_register clk) (gid, uid) message config self) config
    \<longrightarrow> (\<exists>a. fst (register_message lib clk message config self) = Inr (Some a)
              \<and> reason a = reason_mass_mention \<and> action a = TIMEOUT
              \<and> reason a \<noteq> reason_flood))
   \<and> (\<forall>now hist. detect_violation lib now message hist config =
         (if \<not> enabled config then (None, None)
          else case first_match (rules lib now message hist config) of
                 None \<Rightarrow> (None, None)
               | Some (r, forced) \<Rightarrow> (Some r, forced)))
   \<and> (\<forall>a. fst (register_message lib clk message config self) = Inr (Some a)
         \<longrightarrow> enabled config
             \<and> (\<exists>g u forced. message_key message = Some (g, u)
                   \<and> first_match (rules lib (at_detect clk) message
                         (record_message lib (at_register clk) (g, u) message config self)
                         config)
                       = Some (reason a, forced)))"
proof -
  have 1: "\<exists>a. fst (register_message lib clk message config self) = Inr (Some a)
              \<and> reason a = reason_mass_mention \<and> action a = TIMEOUT
              \<and> reason a \<noteq> reason_flood"
    if en: "enabled config"
      and m: "guild message = Some gid" "author message = Member uid c j"
      and dec: "decay_after (violation_tracker self) \<noteq> 0"
      and mass: "mass_mention_rule message"
  proof -
    obtain cnt t where
      inc: "increment (at_increment clk) gid uid (violation_tracker self) = Inr (cnt, t)"
      using increment_total [OF dec] by blast
    have det: "detect_violation lib now message hist config
               = (Some reason_mass_mention, Some TIMEOUT)" for now hist
      using en mass by (simp add: detect_violation_first_match rules_def)
    have "reason_mass_mention \<noteq> reason_flood"
      using reasons_distinct by simp
    then show ?thesis
      by (simp add: register_message_member [OF m] det inc Let_def)
  qed
  have 3: "enabled config
           \<and> (\<exists>g u forced. message_key message = Some (g, u)
                 \<and> first_match (rules lib (at_detect clk) message
                       (record_message lib (at_register clk) (g, u) message config self)
                       config)
                     = Some (reason a, forced))"
    if "fst (register_message lib clk message config self) = Inr (Some a)" for a
  proof -
    from register_message_Some [OF that]
    obtain g u c' j' r forced where
      m: "guild message = Some g" "author message = Member u c' j'"
      and det: "detect_violation lib (at_detect clk) message
                  (record_message lib (at_register clk) (g, u) message config self) config
                = (Some r, forced)"
      and r: "reason a = r"
      by blast
    from det have "enabled config"
      by (auto simp: detect_violation_first_match split: if_splits)
    moreover from det r
    have "first_match (rules lib (at_detect clk) message
            (record_message lib (at_register clk) (g, u) message config self) config)
          = Some (reason a, forced)"
      by (auto simp: detect_violation_first_match split: if_splits option.splits)
    moreover from m have "message_key message = Some (g, u)"
      by (simp add: message_key_Some)
    ultimately show ?thesis by blast
  qed
  from 1 3 detect_violation_first_match [of lib _ message _ config] show ?thesis
    by blast
qed

theorem mass_mention_beats_flood_witness:
  "enabled settings0
   \<and> guild (member_message ''hi @everyone'') = Some 1
   \<and> author (member_message ''hi @everyone'') = Member 7 0 (Some 0)
   \<and> decay_after (violation_tracker busy_detector) \<noteq> 0
   \<and> mass_mention_rule (member_message ''hi @everyone'')
   \<and> flood_rule (record_message ascii_lib (at_register (clock_at 1005)) (1, 7)
                   (member_message ''hi @everyone'') settings0 busy_detector) settings0
   \<and> (\<exists>a. fst (register_message ascii_lib (clock_at 1005) (member_message ''hi @everyone'')
                   settings0 busy_detector) = Inr (Some a)
            \<and> reason a = reason_mass_mention \<and> action a = TIMEOUT
            \<and> reason a \<noteq> reason_flood)
   \<and> detect_violation ascii_lib (seconds 1005) (member_message ''f'')
        \<lparr>maxlen = 20,
         items = [sent 1000 ''a'', sent 1001 ''b'', sent 1002 ''c'', sent 1003 ''d'',
                  sent 1004 ''e'', sent 1005 ''f'']\<rparr> settings0
       = (Some reason_flood, None)
   \<and> detect_violation ascii_lib (seconds 1005) (member_message ''f'')
        \<lparr>maxlen = 20, items = [sent 1005 ''f'']\<rparr> settings0
       = (None, None)"
proof -
  have h1: "enabled settings0" by (simp add: settings0_def)
  have h2: "guild (member_message ''hi @everyone'') = Some 1"
    by (simp add: member_message_def)
  have h3: "author (member_message ''hi @everyone'') = Member 7 0 (Some 0)"
    by (simp add: member_message_def)
  have h4: "decay_after (violation_tracker busy_detector) \<noteq> 0"
    by (simp add: busy_detector_def ViolationTracker_init_def hours_def)
  have h6: "flood_rule (record_message ascii_lib (at_register (clock_at 1005)) (1, 7)
                   (member_message ''hi @everyone'') settings0 busy_detector) settings0"
    using record_everyone by (simp add: flood_rule_def clock_at_def settings0_def)
  have f1: "first_match (rules ascii_lib (seconds 1005) (member_message ''f'')
        \<lparr>maxlen = 20,
         items = [sent 1000 ''a'', sent 1001 ''b'', sent 1002 ''c'', sent 1003 ''d'',
                  sent 1004 ''e'', sent 1005 ''f'']\<rparr> settings0)
      = Some (reason_flood, None)"
    by (simp add: rules_def mass_mention_rule_def flood_rule_def member_message_def lit_def
        settings0_def)
  have f2: "first_match (rules ascii_lib (seconds 1005) (member_message ''f'')
        \<lparr>maxlen = 20, items = [sent 1005 ''f'']\<rparr> settings0) = None"
    by (simp add: rules_def mass_mention_rule_def flood_rule_def mention_spam_rule_def
        count_mentions_def str_count_def has_duplicate_content_def ai_similarity_rule_def
        has_ai_like_similarity_def new_member_rule_def contains_link_def ascii_lib_def
        member_message_def lit_def settings0_def seconds_def minutes_def)
  note t1 = mass_mention_beats_flood [of settings0 "member_message ''hi @everyone''" 1 7 0
      "Some 0" busy_detector ascii_lib "clock_at 1005"]
  note t2 = mass_mention_beats_flood [of settings0 "member_message ''f''" 1 7 0
      "Some 0" busy_detector ascii_lib "clock_at 1005"]
  from t1 h1 h2 h3 h4 mass_everyone h6
  have a: "\<exists>a. fst (register_message ascii_lib (clock_at 1005) (member_message ''hi @everyone'')
                   settings0 busy_detector) = Inr (Some a)
            \<and> reason a = reason_mass_mention \<and> action a = TIMEOUT
            \<and> reason a \<noteq> reason_flood"
    by blast
  from t2 have g: "detect_violation ascii_lib now (member_message ''f'') hist settings0 =
         (case first_match (rules ascii_lib now (member_message ''f'') hist settings0) of
            None \<Rightarrow> (None, None)
          | Some (r, forced) \<Rightarrow> (Some r, forced))" for now hist
    using h1 by simp
  have b: "detect_violation ascii_lib (seconds 1005) (member_message ''f'')
        \<lparr>maxlen = 20,
         items = [sent 1000 ''a'', sent 1001 ''b'', sent 1002 ''c'', sent 1003 ''d'',
                  sent 1004 ''e'', sent 1005 ''f'']\<rparr> settings0
       = (Some reason_flood, None)"
    by (simp only: g f1 option.case prod.case)
  have c: "detect_violation ascii_lib (seconds 1005) (member_message ''f'')
        \<lparr>maxlen = 20, items = [sent 1005 ''f'']\<rparr> settings0 = (None, None)"
    by (simp only: g f2 option.case)
  from h1 h2 h3 h4 mass_everyone h6 a b c show ?thesis by blast
qed

section \<open>A call with detection disabled\<close>

lemma register_message_history:
  "history (snd (register_message lib clk message config self)) =
     (case message_key message of
        None \<Rightarrow> history self
      | Some key \<Rightarrow>
          (history self)(key \<mapsto> record_message lib (at_register clk) key message config self))"
proof (cases "message_key message")
  case None
  then show ?thesis by (simp add: register_message_not_member)
next
  case (Some key)
  obtain gid uid where key: "key = (gid, uid)" by (cases key)
  from Some key obtain c j where m: "guild message = Some gid" "author message = Member uid c j"
    by (auto simp: message_key_Some)
  show ?thesis
    by (simp add: register_message_member [OF m] Some key Let_def
        split: prod.splits option.splits sum.splits)
qed

lemma detect_violation_disabled:
  "\<not> enabled config \<Longrightarrow> detect_violation lib now message hist config = (None, None)"
  by (simp add: detect_violation_def)

text \<open>
  Claim C1, as amended. For every message and every settings snapshot with
  \<open>enabled = False\<close>, \<open>register_message\<close> returns none and leaves the violation
  tracker as it was. The history is not skipped: for a guild member's message the key's
  buffer is replaced by the buffer (a new one when the key had none) with the message
  appended and the expired records dropped, every other key's buffer staying as it was;
  for a message without guild or member the history stays as it was.
\<close>

theorem disabled_keeps_tracker:
  assumes "\<not> enabled config"
  shows "fst (register_message lib clk message config self) = Inr None
         \<and> violation_tracker (snd (register_message lib clk message config self))
             = violation_tracker self
         \<and> history (snd (register_message lib clk message config self)) =
             (case message_key message of
                None \<Rightarrow> history self
              | Some key \<Rightarrow>
                  (history self)
                    (key \<mapsto> record_message lib (at_register clk) key message config self))"
proof (cases "message_key message")
  case None
  then show ?thesis by (simp add: register_message_not_member)
next
  case (Some key)
  obtain gid uid where key: "key = (gid, uid)" by (cases key)
  from Some key obtain c j where m: "guild message = Some gid" "author message = Member uid c j"
    by (auto simp: message_key_Some)
  show ?thesis
    using assms
    by (simp add: register_message_member [OF m] detect_violation_disabled Some key Let_def)
qed

lemma norm_hi: "normalize_content ascii_lib (lit ''hi'') = lit ''hi''"
  by (simp add: normalize_content_def ascii_lib_def lit_def strip_def ascii_lower_def)

lemma key_member_message: "message_key (member_message s) = Some (1, 7)"
  by (simp add: message_key_def member_message_def)

lemma record_hi:
  "record_message ascii_lib (at_register (clock_at 1005)) (1, 7) (member_message ''hi'')
     settings_off detector0 = \<lparr>maxlen = 20, items = [sent 1005 ''hi'']\<rparr>"
  by (simp add: record_message_def norm_hi member_message_def settings_off_def settings0_def
      detector0_def SpamDetector_init_def deque_append_def sent_def seconds_def clock_at_def)

theorem disabled_keeps_tracker_witness:
  "\<not> enabled settings_off
   \<and> fst (register_message ascii_lib (clock_at 1005) (member_message ''hi'') settings_off
            detector0) = Inr None
   \<and> violation_tracker (snd (register_message ascii_lib (clock_at 1005) (member_message ''hi'')
        settings_off detector0)) = violation_tracker detector0
   \<and> history (snd (register_message ascii_lib (clock_at 1005) (member_message ''hi'')
        settings_off detector0)) (1, 7) = Some \<lparr>maxlen = 20, items = [sent 1005 ''hi'']\<rparr>"
proof -
  have h: "\<not> enabled settings_off" by (simp add: settings_off_def)
  from disabled_keeps_tracker [OF h, of ascii_lib "clock_at 1005" "member_message ''hi''" detector0]
  show ?thesis using h by (simp add: key_member_message record_hi)
qed

text \<open>
  The claim as stated fails: a disabled call on the empty detector returns none and
  leaves the member's message in a new buffer.
\<close>

theorem disabled_call_appends:
  "\<not> enabled settings_off
   \<and> fst (register_message ascii_lib (clock_at 1005) (member_message ''hi'') settings_off
            detector0) = Inr None
   \<and> history detector0 (1, 7) = None
   \<and> history (snd (register_message ascii_lib (clock_at 1005) (member_message ''hi'')
        settings_off detector0)) (1, 7) = Some \<lparr>maxlen = 20, items = [sent 1005 ''hi'']\<rparr>
   \<and> snd (register_message ascii_lib (clock_at 1005) (member_message ''hi'') settings_off
            detector0) \<noteq> detector0"
proof -
  have h: "\<not> enabled settings_off" by (simp add: settings_off_def)
  have a: "fst (register_message ascii_lib (clock_at 1005) (member_message ''hi'') settings_off
            detector0) = Inr None"
    by (simp add: register_message_def member_message_def detect_violation_disabled [OF h] Let_def)
  have b: "history detector0 (1, 7) = None"
    by (simp add: detector0_def SpamDetector_init_def)
  have c: "history (snd (register_message ascii_lib (clock_at 1005) (member_message ''hi'')
        settings_off detector0)) (1, 7) = Some \<lparr>maxlen = 20, items = [sent 1005 ''hi'']\<rparr>"
    by (simp add: register_message_history key_member_message record_hi)
  from b c have "snd (register_message ascii_lib (clock_at 1005) (member_message ''hi'')
      settings_off detector0) \<noteq> detector0"
    by auto
  with h a b c show ?thesis by blast
qed

section \<open>Escalation\<close>

lemma detect_violation_forced:
  assumes "detect_violation lib now message hist config = (Some r, forced)"
  shows "forced = (if r = reason_mass_mention then Some TIMEOUT else None)"
proof -
  have d: "reason_flood \<noteq> reason_mass_mention" "reason_mention_spam \<noteq> reason_mass_mention"
    "reason_duplicate \<noteq> reason_mass_mention" "reason_ai_similarity \<noteq> reason_mass_mention"
    "reason_new_account \<noteq> reason_mass_mention"
    using reasons_distinct by auto
  from assms show ?thesis
    by (auto simp: detect_violation_first_match rules_def d split: if_splits)
qed

lemma action_for_count_table:
  "1 \<le> n \<Longrightarrow>
   action_for_count n =
     (if n = 1 then WARN else if n = 2 then DELETE else if n = 3 then TIMEOUT else KICK)"
  by (simp add: action_for_count_def)

text \<open>
  Claim C3. Whenever \<open>register_message\<close> returns an action whose reason is not the mass
  mention reason (the only rule that forces an action), the strike count of the action
  is the count \<open>increment\<close> returned for the member, it is at least 1, and the action
  is the escalation of that count: 1 gives warn, 2 delete, 3 timeout and every count from
  4 on kick.
\<close>

theorem action_follows_escalation:
  assumes "fst (register_message lib clk message config self) = Inr (Some a)"
    and "reason a \<noteq> reason_mass_mention"
  shows "(\<exists>gid uid. message_key message = Some (gid, uid)
            \<and> increment (at_increment clk) gid uid (violation_tracker self)
                = Inr (violation_count a,
                       violation_tracker (snd (register_message lib clk message config self))))
         \<and> 1 \<le> violation_count a
         \<and> action a = action_for_count (violation_count a)
         \<and> action a =
             (if violation_count a = 1 then WARN
              else if violation_count a = 2 then DELETE
              else if violation_count a = 3 then TIMEOUT
              else KICK)"
proof -
  from register_message_Some [OF assms(1)]
  obtain gid uid c j r forced t where
    m: "guild message = Some gid" "author message = Member uid c j"
    and det: "detect_violation lib (at_detect clk) message
                (record_message lib (at_register clk) (gid, uid) message config self) config
               = (Some r, forced)"
    and inc: "increment (at_increment clk) gid uid (violation_tracker self)
               = Inr (violation_count a, t)"
    and t: "violation_tracker (snd (register_message lib clk message config self)) = t"
    and r: "reason a = r"
    and act: "action a = (case forced of Some f \<Rightarrow> f | None \<Rightarrow> action_for_count (violation_count a))"
    by blast
  from detect_violation_forced [OF det] r assms(2) have "forced = None" by simp
  with act have a: "action a = action_for_count (violation_count a)" by simp
  from increment_result [OF inc] have pos: "1 \<le> violation_count a" by simp
  from m have "message_key message = Some (gid, uid)" by (simp add: message_key_Some)
  with inc t a pos action_for_count_table [OF pos] show ?thesis by auto
qed

lemma norm_f: "normalize_content ascii_lib (lit ''f'') = lit ''f''"
  by (simp add: normalize_content_def ascii_lib_def lit_def strip_def ascii_lower_def)

lemma record_f:
  "items (record_message ascii_lib (at_register (clock_at 1005)) (1, 7) (member_message ''f'')
     settings0 busy_detector)
   = [sent 1000 ''a'', sent 1001 ''b'', sent 1002 ''c'', sent 1003 ''d'', sent 1004 ''e'',
      sent 1005 ''f'']"
  by (simp add: record_message_def norm_f member_message_def settings0_def busy_detector_def
      deque_append_def sent_def seconds_def clock_at_def)

lemma detect_f:
  "detect_violation ascii_lib (at_detect (clock_at 1005)) (member_message ''f'')
     (record_message ascii_lib (at_register (clock_at 1005)) (1, 7) (member_message ''f'')
        settings0 busy_detector) settings0 = (Some reason_flood, None)"
proof -
  have "\<not> mass_mention_rule (member_message ''f'')"
    by (simp add: mass_mention_rule_def member_message_def lit_def)
  moreover have "flood_rule (record_message ascii_lib (at_register (clock_at 1005)) (1, 7)
      (member_message ''f'') settings0 busy_detector) settings0"
  proof -
    have "spam_limit settings0 = 5" by (simp add: settings0_def)
    then show ?thesis by (simp add: flood_rule_def record_f)
  qed
  moreover have "enabled settings0" by (simp add: settings0_def)
  ultimately show ?thesis by (simp add: detect_violation_first_match rules_def)
qed

lemma register_f:
  "fst (register_message ascii_lib (clock_at 1005) (member_message ''f'') settings0 busy_detector)
   = Inr (Some \<lparr>action = WARN, reason = reason_flood, details = Some (lit ''f''),
                violation_count = 1\<rparr>)"
proof -
  have m: "guild (member_message ''f'') = Some 1"
    "author (member_message ''f'') = Member 7 0 (Some 0)"
    by (simp_all add: member_message_def)
  have n: "records (violation_tracker busy_detector) (1, 7) = None"
    by (simp add: busy_detector_def ViolationTracker_init_def)
  have c: "take 200 (content (member_message ''f'')) = lit ''f''"
    by (simp add: member_message_def lit_def)
  show ?thesis
    by (simp add: register_message_member [OF m] detect_f increment_no_record [OF n]
        action_for_count_def c Let_def)
qed

theorem action_follows_escalation_witness:
  "fst (register_message ascii_lib (clock_at 1005) (member_message ''f'') settings0 busy_detector)
     = Inr (Some \<lparr>action = WARN, reason = reason_flood, details = Some (lit ''f''),
                  violation_count = 1\<rparr>)
   \<and> reason_flood \<noteq> reason_mass_mention
   \<and> (\<exists>gid uid. message_key (member_message ''f'') = Some (gid, uid)
          \<and> increment (at_increment (clock_at 1005)) gid uid (violation_tracker busy_detector)
              = Inr (1, violation_tracker (snd (register_message ascii_lib (clock_at 1005)
                       (member_message ''f'') settings0 busy_detector))))
   \<and> action_for_count 1 = WARN"
proof -
  have d: "reason_flood \<noteq> reason_mass_mention" using reasons_distinct by auto
  from action_follows_escalation [OF register_f] d register_f show ?thesis by simp
qed

section \<open>Reset\<close>






section \<open>New members\<close>

text \<open>
  Claim C10. For a member whose joined-at instant is absent, \<open>_detect_violation\<close>
  decides as it does for the same member with the joined-at instant equal to the
  creation instant of the account, and it reports the new-account reason exactly when
  detection is enabled, no earlier rule matches, the account age is below the minimum
  age and the message has a link, at least two mentions or a history that has reached
  the spam limit.
\<close>

theorem absent_join_uses_account_age:
  assumes "author message = Member uid created None"
  shows "detect_violation lib now message hist config
           = detect_violation lib now (message\<lparr>author := Member uid created (Some created)\<rparr>)
               hist config
         \<and> (fst (detect_violation lib now message hist config) = Some reason_new_account
              \<longleftrightarrow> enabled config \<and> \<not> mass_mention_rule message \<and> \<not> flood_rule hist config
                  \<and> \<not> mention_spam_rule message config \<and> \<not> has_duplicate_content lib hist
                  \<and> \<not> ai_similarity_rule lib message hist config
                  \<and> now - created < minutes (new_user_minutes config)
                  \<and> (contains_link lib (content message) \<or> count_mentions message \<ge> 2
                       \<or> int (length (items hist)) \<ge> spam_limit config))"
proof -
  have d: "reason_new_account \<noteq> reason_mass_mention" "reason_new_account \<noteq> reason_flood"
    "reason_new_account \<noteq> reason_mention_spam" "reason_new_account \<noteq> reason_duplicate"
    "reason_new_account \<noteq> reason_ai_similarity"
    using reasons_distinct by auto
  have "detect_violation lib now message hist config
           = detect_violation lib now (message\<lparr>author := Member uid created (Some created)\<rparr>)
               hist config"
    using assms by (simp add: detect_violation_def count_mentions_def Let_def)
  moreover have "fst (detect_violation lib now message hist config) = Some reason_new_account
              \<longleftrightarrow> enabled config \<and> \<not> mass_mention_rule message \<and> \<not> flood_rule hist config
                  \<and> \<not> mention_spam_rule message config \<and> \<not> has_duplicate_content lib hist
                  \<and> \<not> ai_similarity_rule lib message hist config
                  \<and> now - created < minutes (new_user_minutes config)
                  \<and> (contains_link lib (content message) \<or> count_mentions message \<ge> 2
                       \<or> int (length (items hist)) \<ge> spam_limit config)"
    using assms d
    by (auto simp: detect_violation_first_match rules_def new_member_rule_def)
  ultimately show ?thesis by blast
qed

theorem absent_join_uses_account_age_witness:
  "author newcomer_message = Member 8 (seconds 900) None
   \<and> detect_violation ascii_lib (seconds 1000) newcomer_message
        \<lparr>maxlen = 20, items = [sent 1000 ''http://x'']\<rparr> settings0
       = detect_violation ascii_lib (seconds 1000)
           (newcomer_message\<lparr>author := Member 8 (seconds 900) (Some (seconds 900))\<rparr>)
           \<lparr>maxlen = 20, items = [sent 1000 ''http://x'']\<rparr> settings0
   \<and> fst (detect_violation ascii_lib (seconds 1000) newcomer_message
        \<lparr>maxlen = 20, items = [sent 1000 ''http://x'']\<rparr> settings0) = Some reason_new_account
   \<and> seconds 1000 - seconds 900 < minutes (new_user_minutes settings0)"
proof -
  have a: "author newcomer_message = Member 8 (seconds 900) None"
    by (simp add: newcomer_message_def)
  have s: "enabled settings0" "spam_limit settings0 = 5" "mention_limit settings0 = 5"
    "new_user_minutes settings0 = 10" "exception_keywords settings0 = []"
    by (simp_all add: settings0_def)
  have c: "content newcomer_message = lit ''http://x''"
    "mention_everyone newcomer_message = False" "mentions newcomer_message = []"
    "role_mentions newcomer_message = []"
    by (simp_all add: newcomer_message_def)
  have cm: "count_mentions newcomer_message = 0"
    by (simp add: count_mentions_def c str_count_def lit_def)
  have 1: "\<not> mass_mention_rule newcomer_message"
    by (simp add: mass_mention_rule_def c lit_def)
  have 2: "\<not> flood_rule \<lparr>maxlen = 20, items = [sent 1000 ''http://x'']\<rparr> settings0"
    by (simp add: flood_rule_def s)
  have 3: "\<not> mention_spam_rule newcomer_message settings0"
    by (simp add: mention_spam_rule_def cm s)
  have 4: "\<not> has_duplicate_content ascii_lib \<lparr>maxlen = 20, items = [sent 1000 ''http://x'']\<rparr>"
    by (simp add: has_duplicate_content_def)
  have 5: "\<not> ai_similarity_rule ascii_lib newcomer_message
             \<lparr>maxlen = 20, items = [sent 1000 ''http://x'']\<rparr> settings0"
    by (simp add: ai_similarity_rule_def has_ai_like_similarity_def)
  have 6: "seconds 1000 - seconds 900 < minutes (new_user_minutes settings0)"
    by (simp add: seconds_def minutes_def s)
  have 7: "contains_link ascii_lib (content newcomer_message)"
    by (simp add: contains_link_def ascii_lib_def c lit_def)
  from absent_join_uses_account_age [OF a, of ascii_lib "seconds 1000"
      "\<lparr>maxlen = 20, items = [sent 1000 ''http://x'']\<rparr>" settings0]
    a s(1) 1 2 3 4 5 6 7
  show ?thesis by blast
qed

section \<open>Returned actions and stored counts\<close>

lemma register_message_tracker:
  "violation_tracker (snd (register_message lib clk message config self)) = violation_tracker self
   \<or> (\<exists>gid uid c. increment (at_increment clk) gid uid (violation_tracker self)
          = Inr (c, violation_tracker (snd (register_message lib clk message config self))))"
proof (cases "message_key message")
  case None
  then show ?thesis by (simp add: register_message_not_member)
next
  case (Some key)
  obtain gid uid where key: "key = (gid, uid)" by (cases key)
  from Some key obtain c j where m: "guild message = Some gid" "author message = Member uid c j"
    by (auto simp: message_key_Some)
  show ?thesis
    by (auto simp: register_message_member [OF m] Let_def
        split: prod.splits option.splits sum.splits)
qed

lemma counts_positive_increment:
  assumes "counts_positive t" and "increment now gid uid t = Inr (c, t')"
  shows "counts_positive t'"
  unfolding counts_positive_def
proof (intro allI impI)
  fix k r assume r: "records t' k = Some r"
  note res = increment_result [OF assms(2)]
  show "1 \<le> count r"
  proof (cases "k = (gid, uid)")
    case True
    with res r show ?thesis by auto
  next
    case False
    with res have "records t' k = records t k" by blast
    with r have "records t k = Some r" by simp
    with assms(1) show ?thesis unfolding counts_positive_def by blast
  qed
qed

lemma counts_positive_step:
  assumes "counts_positive (violation_tracker self)"
  shows "counts_positive (violation_tracker (step lib c self))"
proof (cases c)
  case (RegisterMessage clk message config)
  with register_message_tracker [of lib clk message config self] assms
  show ?thesis by (auto intro: counts_positive_increment)
next
  case (ResetUser gid uid)
  with assms show ?thesis
    by (auto simp: reset_user_def reset_def counts_positive_def split: if_splits)
qed

lemma counts_positive_run:
  "counts_positive (violation_tracker self) \<Longrightarrow>
   counts_positive (violation_tracker (run lib calls self))"
  by (induction calls arbitrary: self) (simp_all add: counts_positive_step)

lemma action_for_count_kinds: "action_for_count n \<in> {WARN, DELETE, TIMEOUT, KICK}"
  by (simp add: action_for_count_def)

text \<open>
  Claim C9. In every detector reached from a new one by calls of \<open>register_message\<close>
  and \<open>reset_user\<close>, every record of the violation tracker has a count of at least 1,
  and every action a further call of \<open>register_message\<close> returns has a strike count of
  at least 1 and one of the kinds warn, delete, timeout and kick, never none.
\<close>

theorem actions_and_records_positive:
  "(\<forall>k r. records (violation_tracker
              (run lib calls (SpamDetector_init (ViolationTracker_init decay_hours)))) k = Some r
           \<longrightarrow> 1 \<le> count r)
   \<and> (\<forall>clk message config a.
         fst (register_message lib clk message config
                (run lib calls (SpamDetector_init (ViolationTracker_init decay_hours))))
           = Inr (Some a)
         \<longrightarrow> 1 \<le> violation_count a \<and> action a \<in> {WARN, DELETE, TIMEOUT, KICK}
             \<and> action a \<noteq> NONE)"
proof -
  let ?st = "run lib calls (SpamDetector_init (ViolationTracker_init decay_hours))"
  have "counts_positive (violation_tracker (SpamDetector_init (ViolationTracker_init decay_hours)))"
    by (simp add: counts_positive_def SpamDetector_init_def ViolationTracker_init_def)
  then have "counts_positive (violation_tracker ?st)" by (rule counts_positive_run)
  then have 1: "\<forall>k r. records (violation_tracker ?st) k = Some r \<longrightarrow> 1 \<le> count r"
    by (simp add: counts_positive_def)
  have 2: "1 \<le> violation_count a \<and> action a \<in> {WARN, DELETE, TIMEOUT, KICK}
           \<and> action a \<noteq> NONE"
    if "fst (register_message lib clk message config ?st) = Inr (Some a)"
    for clk message config a
  proof -
    from register_message_Some [OF that]
    obtain gid uid r forced t where
      det: "detect_violation lib (at_detect clk) message
              (record_message lib (at_register clk) (gid, uid) message config ?st) config
            = (Some r, forced)"
      and inc: "increment (at_increment clk) gid uid (violation_tracker ?st)
                = Inr (violation_count a, t)"
      and act: "action a = (case forced of Some f \<Rightarrow> f
                            | None \<Rightarrow> action_for_count (violation_count a))"
      by blast
    from increment_result [OF inc] have "1 \<le> violation_count a" by simp
    moreover from detect_violation_forced [OF det] act
      action_for_count_kinds [of "violation_count a"]
    have "action a \<in> {WARN, DELETE, TIMEOUT, KICK}"
      by (auto split: if_splits)
    ultimately show ?thesis by auto
  qed
  from 1 2 show ?thesis by blast
qed

lemma register_message_mass:
  assumes "enabled config" and "guild message = Some gid" and "author message = Member uid c j"
    and "mass_mention_rule message"
  shows "register_message lib clk message config self =
     (let self1 = self\<lparr>history := (history self)((gid, uid) \<mapsto>
                     record_message lib (at_register clk) (gid, uid) message config self)\<rparr>
      in case increment (at_increment clk) gid uid (violation_tracker self) of
           Inl e \<Rightarrow> (Inl e, self1)
         | Inr (cnt, tracker) \<Rightarrow>
             (Inr (Some \<lparr>action = TIMEOUT, reason = reason_mass_mention,
                         details = Some (take 200 (content message)),
                         violation_count = cnt\<rparr>),
              self1\<lparr>violation_tracker := tracker\<rparr>))"
proof -
  have "detect_violation lib now message hist config = (Some reason_mass_mention, Some TIMEOUT)"
    for now hist
    using assms(1,4) by (simp add: detect_violation_first_match rules_def)
  then show ?thesis
    by (simp add: register_message_member [OF assms(2,3)] Let_def split: sum.splits prod.splits)
qed

lemma here_facts:
  "enabled settings0" "guild (member_message ''@here'') = Some 1"
  "author (member_message ''@here'') = Member 7 0 (Some 0)"
  "mass_mention_rule (member_message ''@here'')"
  "take 200 (content (member_message ''@here'')) = lit ''@here''"
  by (simp_all add: settings0_def member_message_def mass_mention_rule_def lit_def)

lemma tracker_after_here:
  "violation_tracker (run ascii_lib [here_call] (SpamDetector_init (ViolationTracker_init 24)))
   = \<lparr>records = [(1, 7) \<mapsto> \<lparr>count = 1, last_triggered = seconds 1000,
                               last_decay_check = seconds 1000\<rparr>],
      decay_after = hours 24\<rparr>"
  by (simp add: here_call_def register_message_mass [OF here_facts(1-4)] increment_def
      SpamDetector_init_def ViolationTracker_init_def clock_at_def Let_def)

lemma second_here:
  "fst (register_message ascii_lib (clock_at 1001) (member_message ''@here'') settings0
          (run ascii_lib [here_call] (SpamDetector_init (ViolationTracker_init 24))))
   = Inr (Some \<lparr>action = TIMEOUT, reason = reason_mass_mention, details = Some (lit ''@here''),
                violation_count = 2\<rparr>)"
proof -
  have "increment (at_increment (clock_at 1001)) 1 7
          (violation_tracker (run ascii_lib [here_call]
             (SpamDetector_init (ViolationTracker_init 24))))
        = Inr (2, \<lparr>records = [(1, 7) \<mapsto> \<lparr>count = 2, last_triggered = seconds 1001,
                               last_decay_check = seconds 1000\<rparr>],
                   decay_after = hours 24\<rparr>)"
    unfolding tracker_after_here
    by (simp add: increment_def decay_def clock_at_def seconds_def hours_def)
  then show ?thesis
    by (simp add: register_message_mass [OF here_facts(1-4)] here_facts(5) Let_def)
qed

theorem actions_and_records_positive_witness:
  "records (violation_tracker
      (run ascii_lib [here_call] (SpamDetector_init (ViolationTracker_init 24)))) (1, 7)
     = Some \<lparr>count = 1, last_triggered = seconds 1000, last_decay_check = seconds 1000\<rparr>
   \<and> 1 \<le> count \<lparr>count = 1, last_triggered = seconds 1000, last_decay_check = seconds 1000\<rparr>
   \<and> fst (register_message ascii_lib (clock_at 1001) (member_message ''@here'') settings0
          (run ascii_lib [here_call] (SpamDetector_init (ViolationTracker_init 24))))
       = Inr (Some \<lparr>action = TIMEOUT, reason = reason_mass_mention,
                    details = Some (lit ''@here''), violation_count = 2\<rparr>)
   \<and> action \<lparr>action = TIMEOUT, reason = reason_mass_mention,
               details = Some (lit ''@here''), violation_count = 2\<rparr> \<noteq> NONE"
proof -
  have r: "records (violation_tracker
      (run ascii_lib [here_call] (SpamDetector_init (ViolationTracker_init 24)))) (1, 7)
     = Some \<lparr>count = 1, last_triggered = seconds 1000, last_decay_check = seconds 1000\<rparr>"
    unfolding tracker_after_here by simp
  note t = actions_and_records_positive [of ascii_lib "[here_call]" 24]
  from t r have "1 \<le> count \<lparr>count = 1, last_triggered = seconds 1000,
                               last_decay_check = seconds 1000\<rparr>"
    by blast
  moreover from t second_here
  have "action \<lparr>action = TIMEOUT, reason = reason_mass_mention,
               details = Some (lit ''@here''), violation_count = 2\<rparr> \<noteq> NONE"
    by blast
  ultimately show ?thesis using r second_here by blast
qed

section \<open>The history buffer\<close>

lemma prune_dropWhile: "prune now window rs = dropWhile (\<lambda>r. now - timestamp r > window) rs"
  by (induction rs) simp_all

lemma prune_drop: "\<exists>k. prune now window rs = drop k rs"
  unfolding prune_dropWhile dropWhile_eq_drop by blast

lemma prune_window:
  "sorted (map timestamp rs) \<Longrightarrow> \<forall>r \<in> set (prune now window rs). now - timestamp r \<le> window"
  by (induction rs) auto

lemma deque_append_drop: "\<exists>k. items (deque_append x d) = drop k (items d @ [x])"
proof (cases "int (length (items d)) \<ge> maxlen d")
  case True
  then have "items (deque_append x d) = drop 1 (items d @ [x])"
    by (simp add: deque_append_def drop_Suc del: drop_append)
  then show ?thesis by blast
next
  case False
  then have "items (deque_append x d) = drop 0 (items d @ [x])"
    by (simp add: deque_append_def)
  then show ?thesis by blast
qed

lemma record_message_items:
  "items (record_message lib now key message config self) =
     prune now (seconds (time_window config))
       (items (deque_append (message_record lib now message)
          (case history self key of
             None \<Rightarrow> \<lparr>maxlen = max (spam_limit config * 2) 20, items = []\<rparr>
           | Some d \<Rightarrow> d)))"
  by (simp add: record_message_def message_record_def Let_def)

lemma record_message_drop:
  "\<exists>k. items (record_message lib now key message config self)
        = drop k (buffer self key @ [message_record lib now message])"
proof -
  let ?d0 = "case history self key of
               None \<Rightarrow> \<lparr>maxlen = max (spam_limit config * 2) 20, items = []\<rparr>
             | Some d \<Rightarrow> d"
  have b: "items ?d0 = buffer self key"
    by (simp add: buffer_def split: option.splits)
  obtain k1 where k1: "items (deque_append (message_record lib now message) ?d0)
      = drop k1 (buffer self key @ [message_record lib now message])"
    using deque_append_drop [of "message_record lib now message" ?d0] unfolding b by blast
  obtain k2 where k2: "prune now (seconds (time_window config))
        (items (deque_append (message_record lib now message) ?d0))
      = drop k2 (items (deque_append (message_record lib now message) ?d0))"
    using prune_drop by blast
  have "items (record_message lib now key message config self)
      = drop k2 (items (deque_append (message_record lib now message) ?d0))"
    using k2 by (simp only: record_message_items)
  also have "\<dots> = drop k2 (drop k1 (buffer self key @ [message_record lib now message]))"
    by (simp only: k1)
  also have "\<dots> = drop (k2 + k1) (buffer self key @ [message_record lib now message])"
    by (rule drop_drop)
  finally show ?thesis by blast
qed

lemma buffer_register_message:
  "buffer (snd (register_message lib clk message config self)) key =
     (if message_key message = Some key
      then items (record_message lib (at_register clk) key message config self)
      else buffer self key)"
  by (simp add: buffer_def register_message_history split: option.splits)

lemma buffer_reset_user: "buffer (reset_user gid uid self) key = buffer self key"
  by (simp add: buffer_def reset_user_def)

lemma step_buffer_drop:
  "\<exists>k. buffer (step lib c self) key = drop k (buffer self key @ appended lib key [c])"
proof (cases c)
  case (RegisterMessage clk message config)
  show ?thesis
  proof (cases "message_key message = Some key")
    case True
    with RegisterMessage record_message_drop [of lib "at_register clk" key message config self]
    show ?thesis by (simp add: buffer_register_message)
  next
    case False
    with RegisterMessage have "buffer (step lib c self) key
        = drop 0 (buffer self key @ appended lib key [c])"
      by (simp add: buffer_register_message)
    then show ?thesis by blast
  qed
next
  case (ResetUser gid uid)
  then have "buffer (step lib c self) key = drop 0 (buffer self key @ appended lib key [c])"
    by (simp add: buffer_reset_user)
  then show ?thesis by blast
qed

lemma appended_Cons: "appended lib key (c # cs) = appended lib key [c] @ appended lib key cs"
  by (cases c) simp_all

lemma drop_append_drop: "\<exists>k. drop k2 (drop k1 xs @ ys) = drop k (xs @ ys)"
proof (cases "k1 \<le> length xs")
  case True
  then have "drop k2 (drop k1 xs @ ys) = drop (k1 + k2) (xs @ ys)"
    by (simp add: add.commute)
  then show ?thesis by blast
next
  case False
  then have "drop k2 (drop k1 xs @ ys) = drop (length xs + k2) (xs @ ys)"
    by (simp add: add.commute)
  then show ?thesis by blast
qed

lemma run_buffer_drop:
  "\<exists>k. buffer (run lib calls self) key = drop k (buffer self key @ appended lib key calls)"
proof (induction calls arbitrary: self)
  case Nil
  have "buffer (run lib [] self) key = drop 0 (buffer self key @ appended lib key [])"
    by simp
  then show ?case by blast
next
  case (Cons c cs)
  obtain k1 where k1: "buffer (step lib c self) key
      = drop k1 (buffer self key @ appended lib key [c])"
    using step_buffer_drop by blast
  obtain k2 where k2: "buffer (run lib cs (step lib c self)) key
      = drop k2 (buffer (step lib c self) key @ appended lib key cs)"
    using Cons.IH by blast
  obtain k where "drop k2 (drop k1 (buffer self key @ appended lib key [c])
        @ appended lib key cs)
      = drop k ((buffer self key @ appended lib key [c]) @ appended lib key cs)"
    using drop_append_drop by blast
  with k1 k2 have "buffer (run lib (c # cs) self) key
      = drop k (buffer self key @ appended lib key (c # cs))"
    by (simp add: appended_Cons [of lib key c cs])
  then show ?case by blast
qed

lemma ordered_until_mono:
  "ordered_until t self key \<Longrightarrow> t \<le> u \<Longrightarrow> ordered_until u self key"
  unfolding ordered_until_def by fastforce

lemma sorted_buffer_with_record:
  assumes "ordered_until t self key" and "t \<le> now"
  shows "sorted (map timestamp (buffer self key @ [message_record lib now message]))
         \<and> (\<forall>r \<in> set (buffer self key @ [message_record lib now message]). timestamp r \<le> now)"
  using assms unfolding ordered_until_def
  by (fastforce simp: sorted_append message_record_def)

lemma sorted_record_message:
  assumes "ordered_until t self key" and "t \<le> now"
  shows "sorted (map timestamp (items (record_message lib now key message config self)))
         \<and> (\<forall>r \<in> set (items (record_message lib now key message config self)).
               timestamp r \<le> now)"
proof -
  obtain k where k: "items (record_message lib now key message config self)
      = drop k (buffer self key @ [message_record lib now message])"
    using record_message_drop by blast
  note s = sorted_buffer_with_record [OF assms, of lib message]
  from s have "sorted (drop k (map timestamp (buffer self key @ [message_record lib now message])))"
    by (simp only: sorted_wrt_drop)
  then have "sorted (map timestamp (drop k (buffer self key @ [message_record lib now message])))"
    by (simp only: drop_map)
  moreover from s have "\<forall>r \<in> set (drop k (buffer self key @ [message_record lib now message])).
      timestamp r \<le> now"
    using set_drop_subset by fast
  ultimately show ?thesis by (simp only: k)
qed

lemma window_record_message:
  assumes "ordered_until t self key" and "t \<le> now"
  shows "\<forall>r \<in> set (items (record_message lib now key message config self)).
           now - timestamp r \<le> seconds (time_window config)"
proof -
  let ?d0 = "case history self key of
               None \<Rightarrow> \<lparr>maxlen = max (spam_limit config * 2) 20, items = []\<rparr>
             | Some d \<Rightarrow> d"
  have b: "items ?d0 = buffer self key"
    by (simp add: buffer_def split: option.splits)
  obtain k where k: "items (deque_append (message_record lib now message) ?d0)
      = drop k (buffer self key @ [message_record lib now message])"
    using deque_append_drop [of "message_record lib now message" ?d0] unfolding b by blast
  from sorted_buffer_with_record [OF assms, of lib message]
  have "sorted (drop k (map timestamp (buffer self key @ [message_record lib now message])))"
    by (simp only: sorted_wrt_drop)
  then have "sorted (map timestamp (items (deque_append (message_record lib now message) ?d0)))"
    by (simp only: k drop_map)
  then show ?thesis
    unfolding record_message_items by (rule prune_window)
qed

lemma ordered_until_register:
  assumes "ordered_until t self key" and "t \<le> at_register clk"
    and "message_key message = Some key"
  shows "ordered_until (at_register clk)
           (snd (register_message lib clk message config self)) key"
  using sorted_record_message [OF assms(1,2), of lib message config] assms(3)
  by (simp add: ordered_until_def buffer_register_message)

lemma ordered_until_run:
  "ordered_until t self key \<Longrightarrow>
   sorted (t # map timestamp (appended lib key calls) @ [u]) \<Longrightarrow>
   ordered_until u (run lib calls self) key"
proof (induction calls arbitrary: t self)
  case Nil
  then show ?case by (simp add: ordered_until_mono)
next
  case (Cons c cs)
  show ?case
  proof (cases c)
    case (RegisterMessage clk message config)
    show ?thesis
    proof (cases "message_key message = Some key")
      case True
      with Cons.prems(2) have le: "t \<le> at_register clk"
        and s: "sorted (at_register clk # map timestamp (appended lib key cs) @ [u])"
        by (simp_all add: RegisterMessage message_record_def)
      from ordered_until_register [OF Cons.prems(1) le True]
      have "ordered_until (at_register clk) (step lib c self) key"
        by (simp add: RegisterMessage)
      from Cons.IH [OF this s] show ?thesis by simp
    next
      case False
      then have "buffer (step lib c self) key = buffer self key"
        by (simp add: RegisterMessage buffer_register_message)
      with Cons.prems(1) have "ordered_until t (step lib c self) key"
        by (simp add: ordered_until_def)
      moreover from Cons.prems(2) False
      have "sorted (t # map timestamp (appended lib key cs) @ [u])"
        by (simp add: RegisterMessage)
      ultimately show ?thesis using Cons.IH by simp
    qed
  next
    case (ResetUser gid uid)
    from Cons.prems(1) have "ordered_until t (step lib c self) key"
      by (simp add: ResetUser ordered_until_def buffer_reset_user)
    moreover from Cons.prems(2) have "sorted (t # map timestamp (appended lib key cs) @ [u])"
      by (simp add: ResetUser)
    ultimately show ?thesis using Cons.IH by simp
  qed
qed

lemma ordered_until_init: "ordered_until t (SpamDetector_init tracker) key"
  by (simp add: ordered_until_def buffer_def SpamDetector_init_def)

text \<open>
  Claim C5. Let the detector be reached from a new one by any calls, and let a further
  call of \<open>register_message\<close> file a message under a key, the timestamps of the records
  appended for that key, the new one included, being in non-decreasing order; the calls
  for other keys and their clock readings are free. Then every record left in the key's
  buffer after the call is no older than the window of the call's settings; the buffer is
  the old buffer with the new record at its end and some records removed from its front;
  and every later snapshot is this buffer with the records appended since at its end and
  some records removed from its front, so that a record once removed from the front is
  in no later snapshot.
\<close>

theorem window_invariant:
  assumes "sorted (map timestamp (appended lib key calls
                                  @ [message_record lib (at_register clk) message]))"
    and "message_key message = Some key"
  shows "(\<forall>r \<in> set (buffer (snd (register_message lib clk message config
                       (run lib calls (SpamDetector_init tracker)))) key).
            at_register clk - timestamp r \<le> seconds (time_window config))
         \<and> (\<exists>k. buffer (snd (register_message lib clk message config
                       (run lib calls (SpamDetector_init tracker)))) key
                 = drop k (buffer (run lib calls (SpamDetector_init tracker)) key
                           @ [message_record lib (at_register clk) message]))
         \<and> (\<forall>later. \<exists>k.
               buffer (run lib later (snd (register_message lib clk message config
                         (run lib calls (SpamDetector_init tracker))))) key
               = drop k (buffer (snd (register_message lib clk message config
                           (run lib calls (SpamDetector_init tracker)))) key
                         @ appended lib key later))"
proof -
  let ?st = "run lib calls (SpamDetector_init tracker)"
  let ?ts = "map timestamp (appended lib key calls) @ [at_register clk]"
  from assms(1) have s: "sorted ?ts" by (simp add: message_record_def)
  have "sorted (hd ?ts # ?ts)"
    using s by (cases ?ts) auto
  with ordered_until_init have o: "ordered_until (at_register clk) ?st key"
    by (rule ordered_until_run)
  have b: "buffer (snd (register_message lib clk message config ?st)) key
           = items (record_message lib (at_register clk) key message config ?st)"
    using assms(2) by (simp add: buffer_register_message)
  from window_record_message [OF o order_refl]
  have 1: "\<forall>r \<in> set (buffer (snd (register_message lib clk message config ?st)) key).
            at_register clk - timestamp r \<le> seconds (time_window config)"
    unfolding b .
  have 2: "\<exists>k. buffer (snd (register_message lib clk message config ?st)) key
                 = drop k (buffer ?st key @ [message_record lib (at_register clk) message])"
    unfolding b by (rule record_message_drop)
  from 1 2 run_buffer_drop show ?thesis by blast
qed

lemma norm_here: "normalize_content ascii_lib (lit ''@here'') = lit ''@here''"
  by (simp add: normalize_content_def ascii_lib_def lit_def strip_def ascii_lower_def)

lemma record_here:
  "history self (1, 7) = None \<Longrightarrow>
   record_message ascii_lib (at_register (clock_at 1000)) (1, 7) (member_message ''@here'')
     settings0 self
   = \<lparr>maxlen = 20, items = [sent 1000 ''@here'']\<rparr>"
  by (simp add: record_message_def norm_here member_message_def settings0_def
      deque_append_def sent_def seconds_def clock_at_def)

lemma history_after_late_here:
  "history (run ascii_lib [late_call, here_call]
      (SpamDetector_init (ViolationTracker_init 24))) (1, 7)
   = Some \<lparr>maxlen = 20, items = [sent 1000 ''@here'']\<rparr>"
proof -
  let ?st = "step ascii_lib late_call (SpamDetector_init (ViolationTracker_init 24))"
  have k: "message_key newcomer_message = Some (1, 8)"
    by (simp add: message_key_def newcomer_message_def)
  have "history ?st (1, 7) = None"
    by (simp add: late_call_def register_message_history k SpamDetector_init_def)
  from record_here [OF this] show ?thesis
    by (simp add: here_call_def register_message_history key_member_message)
qed

lemma buffer_after_late_here_hi:
  "buffer (snd (register_message ascii_lib (clock_at 1010) (member_message ''hi'') settings0
      (run ascii_lib [late_call, here_call] (SpamDetector_init (ViolationTracker_init 24)))))
     (1, 7)
   = [sent 1010 ''hi'']"
proof -
  have "items (record_message ascii_lib (at_register (clock_at 1010)) (1, 7)
          (member_message ''hi'') settings0
          (run ascii_lib [late_call, here_call] (SpamDetector_init (ViolationTracker_init 24))))
        = [sent 1010 ''hi'']"
    unfolding record_message_items message_record_def history_after_late_here
    by (simp add: norm_hi member_message_def settings0_def deque_append_def sent_def
        seconds_def clock_at_def)
  then show ?thesis
    unfolding buffer_register_message key_member_message by simp
qed

theorem window_invariant_witness:
  "sorted (map timestamp (appended ascii_lib (1, 7) [late_call, here_call]
                          @ [message_record ascii_lib (at_register (clock_at 1010))
                               (member_message ''hi'')]))
   \<and> message_key (member_message ''hi'') = Some (1, 7)
   \<and> at_register (clock_at 1000) < at_register (clock_at 2000)
   \<and> buffer (run ascii_lib [late_call, here_call]
        (SpamDetector_init (ViolationTracker_init 24))) (1, 7)
       = [sent 1000 ''@here'']
   \<and> buffer (snd (register_message ascii_lib (clock_at 1010) (member_message ''hi'') settings0
        (run ascii_lib [late_call, here_call]
           (SpamDetector_init (ViolationTracker_init 24))))) (1, 7)
       = [sent 1010 ''hi'']
   \<and> at_register (clock_at 1010) - timestamp (sent 1010 ''hi'')
       \<le> seconds (time_window settings0)
   \<and> (\<exists>k. [sent 1010 ''hi'']
          = drop k ([sent 1000 ''@here'']
                    @ [message_record ascii_lib (at_register (clock_at 1010))
                         (member_message ''hi'')]))"
proof -
  have k8: "message_key newcomer_message = Some (1, 8)"
    by (simp add: message_key_def newcomer_message_def)
  have s: "sorted (map timestamp (appended ascii_lib (1, 7) [late_call, here_call]
                          @ [message_record ascii_lib (at_register (clock_at 1010))
                               (member_message ''hi'')]))"
    by (simp add: late_call_def here_call_def k8 key_member_message message_record_def
        clock_at_def seconds_def)
  have l: "at_register (clock_at 1000) < at_register (clock_at 2000)"
    by (simp add: clock_at_def seconds_def)
  have a: "buffer (run ascii_lib [late_call, here_call]
        (SpamDetector_init (ViolationTracker_init 24))) (1, 7) = [sent 1000 ''@here'']"
    unfolding buffer_def history_after_late_here by simp
  note t = window_invariant [OF s key_member_message [of "''hi''"], where config = settings0
      and tracker = "ViolationTracker_init 24"]
  from t have "\<forall>r \<in> set [sent 1010 ''hi''].
      at_register (clock_at 1010) - timestamp r \<le> seconds (time_window settings0)"
    unfolding buffer_after_late_here_hi by blast
  then have 1: "at_register (clock_at 1010) - timestamp (sent 1010 ''hi'')
       \<le> seconds (time_window settings0)"
    by simp
  from t have 2: "\<exists>k. [sent 1010 ''hi'']
          = drop k ([sent 1000 ''@here'']
                    @ [message_record ascii_lib (at_register (clock_at 1010))
                         (member_message ''hi'')])"
    unfolding buffer_after_late_here_hi a by blast
  from s key_member_message l a buffer_after_late_here_hi 1 2 show ?thesis by blast
qed

section \<open>The capacity of the buffer\<close>

lemma length_prune: "length (prune now window rs) \<le> length rs"
  by (induction rs) auto

lemma deque_append_capacity:
  "int (length (items d)) \<le> maxlen d \<Longrightarrow>
   int (length (items (deque_append x d))) \<le> maxlen d \<and> maxlen (deque_append x d) = maxlen d"
  by (simp add: deque_append_def)

lemma record_message_maxlen:
  "maxlen (record_message lib now key message config self) =
     (case history self key of
        None \<Rightarrow> max (spam_limit config * 2) 20
      | Some d \<Rightarrow> maxlen d)"
  by (simp add: record_message_def deque_append_def Let_def split: option.splits)

lemma record_message_capacity:
  assumes "within_capacity self"
  shows "int (length (items (record_message lib now key message config self)))
           \<le> maxlen (record_message lib now key message config self)"
proof -
  let ?d0 = "case history self key of
               None \<Rightarrow> \<lparr>maxlen = max (spam_limit config * 2) 20, items = []\<rparr>
             | Some d \<Rightarrow> d"
  have "int (length (items ?d0)) \<le> maxlen ?d0"
  proof (cases "history self key")
    case None
    then show ?thesis by simp
  next
    case (Some d)
    with assms have "int (length (items d)) \<le> maxlen d"
      unfolding within_capacity_def by blast
    with Some show ?thesis by simp
  qed
  from deque_append_capacity [OF this, of "message_record lib now message"]
  have "int (length (items (deque_append (message_record lib now message) ?d0))) \<le> maxlen ?d0"
    by simp
  moreover have "maxlen (record_message lib now key message config self) = maxlen ?d0"
    by (simp add: record_message_maxlen split: option.splits)
  moreover have "length (items (record_message lib now key message config self))
      \<le> length (items (deque_append (message_record lib now message) ?d0))"
    unfolding record_message_items by (rule length_prune)
  ultimately show ?thesis by linarith
qed

lemma within_capacity_step:
  assumes "within_capacity self"
  shows "within_capacity (step lib c self)"
proof (cases c)
  case (RegisterMessage clk message config)
  show ?thesis
    unfolding within_capacity_def
  proof (intro allI impI)
    fix key d
    assume h: "history (step lib c self) key = Some d"
    show "int (length (items d)) \<le> maxlen d"
    proof (cases "message_key message = Some key")
      case True
      with h RegisterMessage
      have "d = record_message lib (at_register clk) key message config self"
        by (simp add: register_message_history)
      with record_message_capacity [OF assms] show ?thesis by simp
    next
      case False
      with h RegisterMessage have "history self key = Some d"
        by (auto simp: register_message_history split: option.splits if_splits)
      with assms show ?thesis unfolding within_capacity_def by blast
    qed
  qed
next
  case (ResetUser gid uid)
  with assms show ?thesis by (simp add: within_capacity_def reset_user_def)
qed

lemma within_capacity_run:
  "within_capacity self \<Longrightarrow> within_capacity (run lib calls self)"
  by (induction calls arbitrary: self) (simp_all add: within_capacity_step)

lemma maxlen_run:
  "history (run lib calls self) key = Some d \<Longrightarrow>
   (case history self key of
      Some d0 \<Rightarrow> maxlen d = maxlen d0
    | None \<Rightarrow> \<exists>L. first_spam_limit key calls = Some L \<and> maxlen d = max (L * 2) 20)"
proof (induction calls arbitrary: self)
  case Nil
  then show ?case by simp
next
  case (Cons c cs)
  from Cons.prems have h: "history (run lib cs (step lib c self)) key = Some d" by simp
  note ih = Cons.IH [OF h]
  show ?case
  proof (cases c)
    case (RegisterMessage clk message config)
    show ?thesis
    proof (cases "message_key message = Some key")
      case True
      then have "history (step lib c self) key
          = Some (record_message lib (at_register clk) key message config self)"
        by (simp add: RegisterMessage register_message_history)
      with ih have "maxlen d = maxlen (record_message lib (at_register clk) key message config self)"
        by simp
      with True show ?thesis
        by (simp add: RegisterMessage record_message_maxlen split: option.splits)
    next
      case False
      then have "history (step lib c self) key = history self key"
        by (auto simp: RegisterMessage register_message_history split: option.splits)
      with ih False show ?thesis by (simp add: RegisterMessage split: option.splits)
    qed
  next
    case (ResetUser gid uid)
    then have "history (step lib c self) key = history self key"
      by (simp add: reset_user_def)
    with ih show ?thesis by (simp add: ResetUser split: option.splits)
  qed
qed

text \<open>
  Claim C6, as amended. For every key and every sequence of calls on a new detector
  (each call with its own settings), the key's buffer has the capacity
  \<open>max (2 * spam_limit) 20\<close> of the settings of the first call that filed a message
  under the key, and never holds more records than that; appending to a full buffer
  removes the oldest record.
\<close>

theorem capacity_of_first_call:
  assumes "history (run lib calls (SpamDetector_init tracker)) key = Some d"
  shows "(\<exists>L. first_spam_limit key calls = Some L \<and> maxlen d = max (L * 2) 20
              \<and> int (length (items d)) \<le> max (L * 2) 20)
         \<and> (\<forall>x. int (length (items d)) = maxlen d
                \<longrightarrow> items (deque_append x d) = tl (items d) @ [x])"
proof -
  have "within_capacity (SpamDetector_init tracker)"
    by (simp add: within_capacity_def SpamDetector_init_def)
  then have "within_capacity (run lib calls (SpamDetector_init tracker))"
    by (rule within_capacity_run)
  with assms have le: "int (length (items d)) \<le> maxlen d"
    unfolding within_capacity_def by blast
  from maxlen_run [OF assms]
  obtain L where L: "first_spam_limit key calls = Some L" "maxlen d = max (L * 2) 20"
    by (auto simp: SpamDetector_init_def)
  have "items (deque_append x d) = tl (items d) @ [x]"
    if "int (length (items d)) = maxlen d" for x
  proof -
    from that L(2) have "items d \<noteq> []" by auto
    with that show ?thesis by (simp add: deque_append_def)
  qed
  with le L show ?thesis by auto
qed

lemma run_append: "run lib (xs @ ys) self = run lib ys (run lib xs self)"
  by (induction xs arbitrary: self) simp_all

lemma record_message_new:
  assumes "history self key = None" and "0 \<le> time_window config"
  shows "record_message lib now key message config self
         = \<lparr>maxlen = max (spam_limit config * 2) 20, items = [message_record lib now message]\<rparr>"
  using assms
  by (simp add: record_message_def message_record_def deque_append_def seconds_def Let_def)

lemma record_message_room:
  assumes "history self key = Some \<lparr>maxlen = M, items = rs\<rparr>"
    and "rs \<noteq> []" and "int (length rs) < M"
    and "now - timestamp (hd rs) \<le> seconds (time_window config)"
  shows "record_message lib now key message config self
         = \<lparr>maxlen = M, items = rs @ [message_record lib now message]\<rparr>"
  using assms
  by (cases rs) (simp_all add: record_message_def message_record_def deque_append_def Let_def)

lemma tick_message_record:
  "message_record ascii_lib (at_register (tick n)) (member_message ''hi'') = tick_record n"
  by (simp add: message_record_def tick_def tick_record_def norm_hi member_message_def)

lemma ticks_Suc: "ticks (Suc n) = ticks n @ [tick_record n]"
  by (simp add: ticks_def)

lemma ticks_facts: "length (ticks n) = n" "0 < n \<Longrightarrow> ticks n \<noteq> []"
  "0 < n \<Longrightarrow> hd (ticks n) = tick_record 0"
  by (simp_all add: ticks_def hd_map)

lemma wide_calls_Suc: "wide_calls (Suc n) = wide_calls n @ [wide_call n]"
  by (simp add: wide_calls_def)

lemma wide_history:
  "n \<le> 20 \<Longrightarrow>
   history (run ascii_lib (wide_calls n) detector0) (1, 7) =
     (if n = 0 then None else Some \<lparr>maxlen = 100, items = ticks n\<rparr>)"
proof (induction n)
  case 0
  show ?case by (simp add: wide_calls_def detector0_def SpamDetector_init_def)
next
  case (Suc n)
  let ?st = "run ascii_lib (wide_calls n) detector0"
  have w: "time_window settings_wide = 7" "spam_limit settings_wide = 50"
    by (simp_all add: settings_wide_def settings0_def)
  have "record_message ascii_lib (at_register (tick n)) (1, 7) (member_message ''hi'')
          settings_wide ?st
        = \<lparr>maxlen = 100, items = ticks (Suc n)\<rparr>"
  proof (cases "n = 0")
    case True
    then have "history ?st (1, 7) = None" using Suc.IH by simp
    from record_message_new [OF this, of settings_wide ascii_lib "at_register (tick n)"
        "member_message ''hi''"]
    show ?thesis by (simp add: w tick_message_record True ticks_def)
  next
    case False
    with Suc.IH Suc.prems
    have h: "history ?st (1, 7) = Some \<lparr>maxlen = 100, items = ticks n\<rparr>"
      by simp
    from False have ne: "ticks n \<noteq> []" by (simp add: ticks_facts)
    have l: "int (length (ticks n)) < 100"
      using Suc.prems by (simp add: ticks_facts)
    have t: "at_register (tick n) - timestamp (hd (ticks n))
             \<le> seconds (time_window settings_wide)"
      using Suc.prems False by (simp add: ticks_facts tick_def tick_record_def seconds_def w)
    from record_message_room [OF h ne l t, of ascii_lib "member_message ''hi''"]
    show ?thesis by (simp add: tick_message_record ticks_Suc)
  qed
  then show ?case
    by (simp add: wide_calls_Suc run_append wide_call_def register_message_history
        key_member_message)
qed

lemma overflow_history:
  "history (run ascii_lib overflow_calls detector0) (1, 7)
   = Some \<lparr>maxlen = 100, items = ticks 21\<rparr>"
proof -
  let ?st = "run ascii_lib (wide_calls 20) detector0"
  have h: "history ?st (1, 7) = Some \<lparr>maxlen = 100, items = ticks 20\<rparr>"
    using wide_history [of 20] by simp
  have ne: "ticks 20 \<noteq> []" by (simp add: ticks_facts)
  have l: "int (length (ticks 20)) < 100" by (simp add: ticks_facts)
  have t: "at_register (tick 20) - timestamp (hd (ticks 20))
           \<le> seconds (time_window settings0)"
    by (simp add: ticks_facts tick_def tick_record_def seconds_def settings0_def)
  have "ticks 21 = ticks 20 @ [tick_record 20]"
    using ticks_Suc [of 20] by simp
  with record_message_room [OF h ne l t, of ascii_lib "member_message ''hi''"]
  have "record_message ascii_lib (at_register (tick 20)) (1, 7) (member_message ''hi'')
          settings0 ?st
        = \<lparr>maxlen = 100, items = ticks 21\<rparr>"
    by (simp add: tick_message_record)
  then show ?thesis
    by (simp add: overflow_calls_def narrow_call_def run_append register_message_history
        key_member_message)
qed

lemma first_spam_limit_wide:
  "first_spam_limit (1, 7) (wide_calls (Suc n) @ cs) = Some 50"
proof (induction n arbitrary: cs)
  case 0
  show ?case
    by (simp add: wide_calls_def wide_call_def key_member_message settings_wide_def)
next
  case (Suc n)
  have "wide_calls (Suc (Suc n)) @ cs = wide_calls (Suc n) @ (wide_call (Suc n) # cs)"
    by (simp add: wide_calls_Suc)
  with Suc.IH show ?case by (simp only:)
qed

text \<open>
  The claim as stated fails: the last call of \<open>overflow_calls\<close> brings settings with
  spam limit 5, and leaves 21 records in the member's buffer, more than
  \<open>max (2 * 5) 20\<close>.
\<close>

theorem buffer_exceeds_current_limit:
  "last overflow_calls = RegisterMessage (tick 20) (member_message ''hi'') settings0
   \<and> spam_limit settings0 = 5
   \<and> length (buffer (run ascii_lib overflow_calls detector0) (1, 7)) = 21
   \<and> \<not> int (length (buffer (run ascii_lib overflow_calls detector0) (1, 7)))
         \<le> max (2 * spam_limit settings0) 20"
proof -
  have b: "length (buffer (run ascii_lib overflow_calls detector0) (1, 7)) = 21"
    unfolding buffer_def overflow_history by (simp add: ticks_facts)
  have l: "last overflow_calls = RegisterMessage (tick 20) (member_message ''hi'') settings0"
    by (simp add: overflow_calls_def narrow_call_def)
  have s: "spam_limit settings0 = 5" by (simp add: settings0_def)
  from b l s show ?thesis by simp
qed

theorem capacity_of_first_call_witness:
  "history (run ascii_lib overflow_calls (SpamDetector_init (ViolationTracker_init 24))) (1, 7)
     = Some \<lparr>maxlen = 100, items = ticks 21\<rparr>
   \<and> first_spam_limit (1, 7) overflow_calls = Some 50
   \<and> maxlen \<lparr>maxlen = 100, items = ticks 21\<rparr> = max (50 * 2) 20
   \<and> int (length (items \<lparr>maxlen = 100, items = ticks 21\<rparr>)) \<le> max (50 * 2) 20"
proof -
  have h: "history (run ascii_lib overflow_calls (SpamDetector_init (ViolationTracker_init 24)))
             (1, 7) = Some \<lparr>maxlen = 100, items = ticks 21\<rparr>"
    using overflow_history by (simp add: detector0_def)
  have "wide_calls 20 = wide_calls (Suc 19)" by simp
  then have f: "first_spam_limit (1, 7) overflow_calls = Some 50"
    unfolding overflow_calls_def by (simp only: first_spam_limit_wide)
  from capacity_of_first_call [OF h] f h show ?thesis by auto
qed

section \<open>The near-duplicate rule\<close>

lemma str_in_sublist: "str_in needle hay \<longleftrightarrow> sublist needle hay"
  by (induction hay) (simp_all add: sublist_Cons_right)

lemma any_keyword_in_iff:
  "any_keyword_in lib base kws
     \<longleftrightarrow> (\<exists>keyword \<in> set kws. sublist (str_lower lib keyword) base)"
  by (induction kws) (simp_all add: str_in_sublist)

lemma is_ai_exempt_iff:
  "is_ai_exempt lib text kws
     \<longleftrightarrow> (\<exists>keyword \<in> set kws. sublist (str_lower lib keyword) (str_lower lib text))"
  by (simp add: is_ai_exempt_def any_keyword_in_iff)

lemma last_n_4:
  assumes "4 \<le> length xs"
  shows "last_n 4 xs = [xs ! (length xs - 4), xs ! (length xs - 3), xs ! (length xs - 2),
                        xs ! (length xs - 1)]"
proof -
  let ?n = "length xs"
  have len: "length (last_n 4 xs) = 4" using assms by (simp add: last_n_def)
  have nth: "last_n 4 xs ! i = xs ! (?n - 4 + i)" if "i < 4" for i
    using assms that by (simp add: last_n_def)
  show ?thesis
  proof (rule nth_equalityI)
    show "length (last_n 4 xs) = length [xs ! (?n - 4), xs ! (?n - 3), xs ! (?n - 2), xs ! (?n - 1)]"
      using len by simp
  next
    fix i assume "i < length (last_n 4 xs)"
    then have i: "i < 4" using len by simp
    then consider "i = 0" | "i = 1" | "i = 2" | "i = 3" by linarith
    then show "last_n 4 xs ! i
        = [xs ! (?n - 4), xs ! (?n - 3), xs ! (?n - 2), xs ! (?n - 1)] ! i"
    proof cases
      case 1 then show ?thesis using nth [of 0] by simp
    next
      case 2
      have "?n - 4 + 1 = ?n - 3" using assms by simp
      with 2 show ?thesis using nth [of 1] by simp
    next
      case 3
      have "?n - 4 + 2 = ?n - 2" using assms by simp
      with 3 show ?thesis using nth [of 2] by simp
    next
      case 4
      have "?n - 4 + 3 = ?n - 1" using assms by simp
      with 4 show ?thesis using nth [of 3] by simp
    qed
  qed
qed

lemma has_ai_like_similarity_iff:
  "has_ai_like_similarity lib hist \<longleftrightarrow>
     4 \<le> length (items hist)
     \<and> 2 \<le> length (filter
                 (\<lambda>k. 85 / 100 \<le> SequenceMatcher_ratio lib
                          (normalized (items hist ! (length (items hist) - 1)))
                          (normalized (items hist ! (length (items hist) - k))))
                 [2, 3, 4])"
proof (cases "4 \<le> length (items hist)")
  case False
  then show ?thesis by (simp add: has_ai_like_similarity_def)
next
  case True
  show ?thesis
    using True
    by (simp add: has_ai_like_similarity_def last_n_4 [OF True] is_similar_def Let_def)
qed

lemma ai_condition_iff_spec:
  "\<not> is_ai_exempt lib (content message) (exception_keywords config)
     \<and> has_ai_like_similarity lib hist
   \<longleftrightarrow> near_duplicate_spec lib message hist config"
  unfolding near_duplicate_spec_def Let_def is_ai_exempt_iff
  by (subst has_ai_like_similarity_iff) blast

text \<open>
  Claim C7. The condition of the near-duplicate rule in \<open>_detect_violation\<close> holds
  exactly when the content holds no exception keyword as a case-insensitive substring,
  the history after pruning has at least four records and the newest record is similar,
  at 0.85 or more, to at least two of the three records before it. The rule's reason is
  returned exactly when detection is enabled, no earlier rule matches and that condition
  holds, and never for a content that holds an exception keyword.
\<close>

theorem near_duplicate_rule_exact:
  "((\<not> is_ai_exempt lib (content message) (exception_keywords config)
       \<and> has_ai_like_similarity lib hist)
      \<longleftrightarrow> near_duplicate_spec lib message hist config)
   \<and> (fst (detect_violation lib now message hist config) = Some reason_ai_similarity
        \<longleftrightarrow> enabled config \<and> \<not> mass_mention_rule message \<and> \<not> flood_rule hist config
            \<and> \<not> mention_spam_rule message config \<and> \<not> has_duplicate_content lib hist
            \<and> near_duplicate_spec lib message hist config)
   \<and> ((\<exists>keyword \<in> set (exception_keywords config).
          sublist (str_lower lib keyword) (str_lower lib (content message)))
        \<longrightarrow> fst (detect_violation lib now message hist config) \<noteq> Some reason_ai_similarity)"
proof -
  have d: "reason_ai_similarity \<noteq> reason_mass_mention" "reason_ai_similarity \<noteq> reason_flood"
    "reason_ai_similarity \<noteq> reason_mention_spam" "reason_ai_similarity \<noteq> reason_duplicate"
    "reason_new_account \<noteq> reason_ai_similarity"
    using reasons_distinct by auto
  have r: "ai_similarity_rule lib message hist config
           \<longleftrightarrow> near_duplicate_spec lib message hist config"
    unfolding ai_similarity_rule_def by (rule ai_condition_iff_spec)
  have 2: "fst (detect_violation lib now message hist config) = Some reason_ai_similarity
        \<longleftrightarrow> enabled config \<and> \<not> mass_mention_rule message \<and> \<not> flood_rule hist config
            \<and> \<not> mention_spam_rule message config \<and> \<not> has_duplicate_content lib hist
            \<and> near_duplicate_spec lib message hist config"
    unfolding r [symmetric]
    using d by (auto simp: detect_violation_first_match rules_def)
  have 3: "fst (detect_violation lib now message hist config) \<noteq> Some reason_ai_similarity"
    if "\<exists>keyword \<in> set (exception_keywords config).
          sublist (str_lower lib keyword) (str_lower lib (content message))"
  proof -
    from that have "\<not> near_duplicate_spec lib message hist config"
      by (simp add: near_duplicate_spec_def Let_def)
    with 2 show ?thesis by blast
  qed
  from ai_condition_iff_spec [of lib message config hist] 2 3 show ?thesis by blast
qed

lemma repeating_facts:
  "\<not> mass_mention_rule (member_message ''spam'')"
  "\<not> flood_rule repeating_history settings0"
  "\<not> mention_spam_rule (member_message ''spam'') settings0"
  "\<not> has_duplicate_content ascii_lib repeating_history"
  "has_ai_like_similarity ascii_lib repeating_history"
proof -
  show "\<not> mass_mention_rule (member_message ''spam'')"
    by (simp add: mass_mention_rule_def member_message_def lit_def)
  show "\<not> flood_rule repeating_history settings0"
    by (simp add: flood_rule_def repeating_history_def settings0_def)
  show "\<not> mention_spam_rule (member_message ''spam'') settings0"
    by (simp add: mention_spam_rule_def count_mentions_def str_count_def member_message_def
        lit_def settings0_def)
  show "\<not> has_duplicate_content ascii_lib repeating_history"
    by (simp add: has_duplicate_content_def repeating_history_def last_n_def is_similar_def
        ascii_lib_def sent_def lit_def)
  show "has_ai_like_similarity ascii_lib repeating_history"
    by (simp add: has_ai_like_similarity_def repeating_history_def last_n_def is_similar_def
        ascii_lib_def sent_def lit_def)
qed

theorem near_duplicate_rule_exact_witness:
  "fst (detect_violation ascii_lib (seconds 1003) (member_message ''spam'') repeating_history
          settings0) = Some reason_ai_similarity
   \<and> near_duplicate_spec ascii_lib (member_message ''spam'') repeating_history settings0
   \<and> (\<exists>keyword \<in> set (exception_keywords settings_exempt).
          sublist (str_lower ascii_lib keyword)
            (str_lower ascii_lib (content (member_message ''spam''))))
   \<and> fst (detect_violation ascii_lib (seconds 1003) (member_message ''spam'') repeating_history
          settings_exempt) \<noteq> Some reason_ai_similarity"
proof -
  have e: "\<not> is_ai_exempt ascii_lib (content (member_message ''spam''))
              (exception_keywords settings0)"
    by (simp add: is_ai_exempt_def settings0_def)
  have en: "enabled settings0" by (simp add: settings0_def)
  note t = near_duplicate_rule_exact [of ascii_lib "member_message ''spam''" _
      repeating_history "seconds 1003"]
  from t [of settings0] e repeating_facts(5)
  have n: "near_duplicate_spec ascii_lib (member_message ''spam'') repeating_history settings0"
    by blast
  with t [of settings0] en repeating_facts(1-4)
  have 1: "fst (detect_violation ascii_lib (seconds 1003) (member_message ''spam'')
      repeating_history settings0) = Some reason_ai_similarity"
    by blast
  have "str_in (str_lower ascii_lib (lit ''SPA''))
          (str_lower ascii_lib (content (member_message ''spam'')))"
    by (simp add: ascii_lib_def ascii_lower_def member_message_def lit_def)
  then have k: "\<exists>keyword \<in> set (exception_keywords settings_exempt).
          sublist (str_lower ascii_lib keyword)
            (str_lower ascii_lib (content (member_message ''spam'')))"
    by (simp add: settings_exempt_def str_in_sublist)
  with t [of settings_exempt]
  have 2: "fst (detect_violation ascii_lib (seconds 1003) (member_message ''spam'')
      repeating_history settings_exempt) \<noteq> Some reason_ai_similarity"
    by blast
  from 1 n k 2 show ?thesis by blast
qed

end
